theory Spec2Isabelle
  imports Complex_Main "HOL-Library.Monad_Syntax" "HOL-Library.Multiset"
begin

unbundle bit_operations_syntax

section \<open>Common model\<close>

text \<open>
  The compiler's scalar type \<open>vec_t\<close> is read as a real number: rounding, infinities and
  NaN are outside this development.  A \<open>qvec3d\<close> is a triple, indexed by \<open>0, 1, 2\<close>.
\<close>

type_synonym vec_t = real
type_synonym qvec3d = "vec_t \<times> vec_t \<times> vec_t"

fun qv_at :: "qvec3d \<Rightarrow> nat \<Rightarrow> vec_t" where
  "qv_at (x, y, z) k = (if k = 0 then x else if k = 1 then y else z)"

fun qv_neg :: "qvec3d \<Rightarrow> qvec3d" where
  "qv_neg (x, y, z) = (- x, - y, - z)"

fun qv_sub :: "qvec3d \<Rightarrow> qvec3d \<Rightarrow> qvec3d" where
  "qv_sub (a, b, c) (x, y, z) = (a - x, b - y, c - z)"

fun qv_add :: "qvec3d \<Rightarrow> qvec3d \<Rightarrow> qvec3d" where
  "qv_add (a, b, c) (x, y, z) = (a + x, b + y, c + z)"

fun qv_scale :: "qvec3d \<Rightarrow> vec_t \<Rightarrow> qvec3d" where
  "qv_scale (a, b, c) s = (a * s, b * s, c * s)"

fun qv_dot :: "qvec3d \<Rightarrow> qvec3d \<Rightarrow> vec_t" where
  "qv_dot (a, b, c) (x, y, z) = a * x + b * y + c * z"

fun qv_cross :: "qvec3d \<Rightarrow> qvec3d \<Rightarrow> qvec3d" where
  "qv_cross (a, b, c) (x, y, z) = (b * z - c * y, c * x - a * z, a * y - b * x)"

definition qv_length :: "qvec3d \<Rightarrow> vec_t" where
  "qv_length v = sqrt (qv_dot v v)"

text \<open>
  Modelled from the spec: \<open>qv::epsilonEqual\<close> on vectors is declared in a header that is
  not part of the sources at hand; two points are identified when every coordinate
  differs by at most the epsilon.
\<close>

fun epsilonEqual :: "qvec3d \<Rightarrow> qvec3d \<Rightarrow> vec_t \<Rightarrow> bool" where
  "epsilonEqual (a, b, c) (x, y, z) eps =
     (\<not> (\<bar>a - x\<bar> > eps) \<and> \<not> (\<bar>b - y\<bar> > eps) \<and> \<not> (\<bar>c - z\<bar> > eps))"

text \<open>
  Errors are values.  \<open>FError\<close> is the fatal error channel of the compiler (it does not
  return), \<open>AssertFailed\<close> is a failed \<open>Q_assert\<close> (which exits), \<open>OutOfRange\<close> is the
  exception of \<open>std::vector::at\<close>, and \<open>Undefined\<close> stands for a dereference the
  language leaves undefined (a null pointer, an empty optional).
\<close>

datatype error = FError string | AssertFailed string | OutOfRange | Undefined

section \<open>Plane registry (map.hh)\<close>

record qplane3d =
  normal :: qvec3d
  dist :: vec_t

text \<open>
  Modelled from the spec: the unary minus of a plane is declared outside the sources at
  hand; it yields the opposite normal and the negated distance.
\<close>

definition qplane_neg :: "qplane3d \<Rightarrow> qplane3d" where
  "qplane_neg p = \<lparr>normal = qv_neg (normal p), dist = - dist p\<rparr>"

record mapplane_t = qplane3d +
  outputnum :: "nat option"

definition mapplane :: "qplane3d \<Rightarrow> mapplane_t" where
  "mapplane p = \<lparr>normal = normal p, dist = dist p, outputnum = None\<rparr>"

definition plane_of :: "mapplane_t \<Rightarrow> qplane3d" where
  "plane_of m = \<lparr>normal = normal m, dist = dist m\<rparr>"

text \<open>
  \<open>mapdata_t::add_plane\<close>.  The plane type (\<open>get_type\<close>, whose value modulo 3 is the
  dominant axis) belongs to \<open>qbsp_plane_t\<close>, which is declared elsewhere: it is a
  parameter.  The function returns the extended vector and the returned index.
\<close>

definition add_plane ::
  "(mapplane_t \<Rightarrow> nat) \<Rightarrow> mapplane_t list \<Rightarrow> qplane3d \<Rightarrow> mapplane_t list \<times> nat" where
  "add_plane get_type planes plane =
     (let positive = mapplane plane;
          negative = mapplane (qplane_neg plane);
          planes1 = planes @ [positive, negative]
      in if qv_at (normal positive) (get_type positive mod 3) < 0
         then (planes @ [negative, positive], length planes1 - 1)
         else (planes1, length planes1 - 2))"

section \<open>Vertex hashing (map.hh)\<close>

record hashvert_t =
  point :: qvec3d
  num :: nat

type_synonym qvec3i = "int \<times> int \<times> int"
type_synonym hashverts_t = "qvec3i \<rightharpoonup> hashvert_t list"

fun find_hash_vector :: "hashverts_t \<Rightarrow> qvec3d \<Rightarrow> hashvert_t list option" where
  "find_hash_vector hashverts (x, y, z) = hashverts (\<lfloor>x\<rfloor>, \<lfloor>y\<rfloor>, \<lfloor>z\<rfloor>)"

definition find_emitted_hash_vector :: "vec_t \<Rightarrow> hashverts_t \<Rightarrow> qvec3d \<Rightarrow> nat option" where
  "find_emitted_hash_vector POINT_EQUAL_EPSILON hashverts vert =
     (case find_hash_vector hashverts vert of
        None \<Rightarrow> None
      | Some bucket \<Rightarrow>
          (case find (\<lambda>hv. epsilonEqual (point hv) vert POINT_EQUAL_EPSILON) bucket of
             None \<Rightarrow> None
           | Some hv \<Rightarrow> Some (num hv)))"

text \<open>\<open>hashverts[h].push_front(hv)\<close>: a missing bucket is created empty first.\<close>

definition bucket_of :: "hashverts_t \<Rightarrow> qvec3i \<Rightarrow> hashvert_t list" where
  "bucket_of hashverts h = (case hashverts h of None \<Rightarrow> [] | Some bucket \<Rightarrow> bucket)"

definition push_front_bucket :: "hashverts_t \<Rightarrow> qvec3i \<Rightarrow> hashvert_t \<Rightarrow> hashverts_t" where
  "push_front_bucket hashverts h hv = hashverts(h \<mapsto> hv # bucket_of hashverts h)"

fun add_hash_vector :: "hashverts_t \<Rightarrow> qvec3d \<Rightarrow> nat \<Rightarrow> hashverts_t" where
  "add_hash_vector hashverts (px, py, pz) n =
     fold (\<lambda>x m. fold (\<lambda>y m. fold (\<lambda>z m.
         push_front_bucket m (\<lfloor>px\<rfloor> + x, \<lfloor>py\<rfloor> + y, \<lfloor>pz\<rfloor> + z) \<lparr>point = (px, py, pz), num = n\<rparr>)
       [-1, 0, 1] m) [-1, 0, 1] m) [-1, 0, 1] hashverts"

declare add_hash_vector.simps [simp del]

section \<open>Portals (portals.cc)\<close>

datatype planeside_t = SIDE_FRONT | SIDE_BACK

fun other_side :: "planeside_t \<Rightarrow> planeside_t" where
  "other_side SIDE_FRONT = SIDE_BACK"
| "other_side SIDE_BACK = SIDE_FRONT"

text \<open>
  Nodes and portals live in a store and are named by their addresses; a null pointer is
  \<open>None\<close>.  The two-element arrays \<open>nodes\<close>, \<open>next\<close> and \<open>children\<close> are indexed by the
  side.  The winding type and the contents type are parameters.
\<close>

record 'w portal_t =
  planenum :: nat
  onnode :: "nat option"
  nodes :: "planeside_t \<Rightarrow> nat option"
  "next" :: "planeside_t \<Rightarrow> nat option"
  winding :: "'w option"

record 'c node_t =
  node_planenum :: int
  children :: "planeside_t \<Rightarrow> nat option"
  contents :: 'c
  portals :: "nat option"

record ('c, 'w) store =
  node_mem :: "nat \<Rightarrow> 'c node_t"
  portal_mem :: "nat \<Rightarrow> 'w portal_t"
  portal_brk :: nat

text \<open>
  \<open>Portal_EntityFlood\<close>.  The leaf marker \<open>PLANENUM_LEAF\<close> and the game's
  \<open>is_any_solid\<close> predicate are declared elsewhere and are parameters.  The conditions
  are evaluated left to right, as \<open>||\<close> does.
\<close>

definition Portal_EntityFlood ::
  "int \<Rightarrow> ('c \<Rightarrow> bool) \<Rightarrow> ('c, 'w) store \<Rightarrow> nat \<Rightarrow> int \<Rightarrow> error + bool" where
  "Portal_EntityFlood PLANENUM_LEAF is_any_solid h p s =
     (case nodes (portal_mem h p) SIDE_FRONT of
        None \<Rightarrow> Inl Undefined
      | Some n0 \<Rightarrow>
          if node_planenum (node_mem h n0) \<noteq> PLANENUM_LEAF
          then Inl (FError ''Portal_EntityFlood: not a leaf'')
          else (case nodes (portal_mem h p) SIDE_BACK of
             None \<Rightarrow> Inl Undefined
           | Some n1 \<Rightarrow>
               if node_planenum (node_mem h n1) \<noteq> PLANENUM_LEAF
               then Inl (FError ''Portal_EntityFlood: not a leaf'')
               else if is_any_solid (contents (node_mem h n0)) then Inr False
               else if is_any_solid (contents (node_mem h n1)) then Inr False
               else Inr True))"

text \<open>
  The portal primitives.  \<open>portalstats_t\<close> is declared elsewhere; only the counter
  that \<open>SplitNodePortals\<close> writes is kept.  An assignment through a pointer updates one
  cell of the store.
\<close>

record portalstats_t =
  c_tinyportals :: nat

definition upd_portal :: "('c, 'w) store \<Rightarrow> nat \<Rightarrow> ('w portal_t \<Rightarrow> 'w portal_t) \<Rightarrow> ('c, 'w) store" where
  "upd_portal h p f = h\<lparr>portal_mem := (portal_mem h)(p := f (portal_mem h p))\<rparr>"

definition upd_node :: "('c, 'w) store \<Rightarrow> nat \<Rightarrow> ('c node_t \<Rightarrow> 'c node_t) \<Rightarrow> ('c, 'w) store" where
  "upd_node h n f = h\<lparr>node_mem := (node_mem h)(n := f (node_mem h n))\<rparr>"

text \<open>
  \<open>AddPortalToNodes\<close>: the fatal error when an endpoint is already set, then the six
  assignments in the order of the source (each reads the store the earlier ones left).
\<close>

definition AddPortalToNodes :: "('c, 'w) store \<Rightarrow> nat \<Rightarrow> nat \<Rightarrow> nat \<Rightarrow> error + ('c, 'w) store" where
  "AddPortalToNodes h p front back =
     (if nodes (portal_mem h p) SIDE_FRONT \<noteq> None \<or> nodes (portal_mem h p) SIDE_BACK \<noteq> None
      then Inl (FError ''portal already included'')
      else
        let h = upd_portal h p (\<lambda>pt. pt\<lparr>nodes := (nodes pt)(SIDE_FRONT := Some front)\<rparr>);
            h = upd_portal h p (\<lambda>pt. pt\<lparr>next := (next pt)(SIDE_FRONT := portals (node_mem h front))\<rparr>);
            h = upd_node h front (\<lambda>n. n\<lparr>portals := Some p\<rparr>);
            h = upd_portal h p (\<lambda>pt. pt\<lparr>nodes := (nodes pt)(SIDE_BACK := Some back)\<rparr>);
            h = upd_portal h p (\<lambda>pt. pt\<lparr>next := (next pt)(SIDE_BACK := portals (node_mem h back))\<rparr>);
            h = upd_node h back (\<lambda>n. n\<lparr>portals := Some p\<rparr>)
        in Inr h)"

text \<open>
  \<open>RemovePortalFromNode\<close>.  The variable \<open>pp\<close> points to a pointer: the list head of a
  node or the field \<open>next[s]\<close> of a portal.  The \<open>while (1)\<close> loop follows the list until
  it meets the portal or a null pointer; on a cyclic list it does not return.
\<close>

datatype portal_ref = Head nat | Link nat planeside_t

fun read_ref :: "('c, 'w) store \<Rightarrow> portal_ref \<Rightarrow> nat option" where
  "read_ref h (Head l) = portals (node_mem h l)"
| "read_ref h (Link t s) = next (portal_mem h t) s"

fun write_ref :: "('c, 'w) store \<Rightarrow> portal_ref \<Rightarrow> nat option \<Rightarrow> ('c, 'w) store" where
  "write_ref h (Head l) v = upd_node h l (\<lambda>n. n\<lparr>portals := v\<rparr>)"
| "write_ref h (Link t s) v = upd_portal h t (\<lambda>pt. pt\<lparr>next := (next pt)(s := v)\<rparr>)"

partial_function (option) RemovePortalFromNode_find ::
  "('c, 'w) store \<Rightarrow> nat \<Rightarrow> nat \<Rightarrow> portal_ref \<Rightarrow> (error + portal_ref) option" where
  "RemovePortalFromNode_find h portal l pp =
     (case read_ref h pp of
        None \<Rightarrow> Some (Inl (FError ''Portal not in leaf''))
      | Some t \<Rightarrow>
          if t = portal then Some (Inr pp)
          else if nodes (portal_mem h t) SIDE_FRONT = Some l
               then RemovePortalFromNode_find h portal l (Link t SIDE_FRONT)
          else if nodes (portal_mem h t) SIDE_BACK = Some l
               then RemovePortalFromNode_find h portal l (Link t SIDE_BACK)
          else Some (Inl (FError ''Portal not bounding leaf'')))"

definition RemovePortalFromNode ::
  "('c, 'w) store \<Rightarrow> nat \<Rightarrow> nat \<Rightarrow> (error + ('c, 'w) store) option" where
  "RemovePortalFromNode h portal l =
     Option.bind (RemovePortalFromNode_find h portal l (Head l))
       (\<lambda>r. case r of
          Inl e \<Rightarrow> Some (Inl e)
        | Inr pp \<Rightarrow>
            if nodes (portal_mem h portal) SIDE_FRONT = Some l then
              (let h = write_ref h pp (next (portal_mem h portal) SIDE_FRONT);
                   h = upd_portal h portal (\<lambda>pt. pt\<lparr>nodes := (nodes pt)(SIDE_FRONT := None)\<rparr>)
               in Some (Inr h))
            else if nodes (portal_mem h portal) SIDE_BACK = Some l then
              (let h = write_ref h pp (next (portal_mem h portal) SIDE_BACK);
                   h = upd_portal h portal (\<lambda>pt. pt\<lparr>nodes := (nodes pt)(SIDE_BACK := None)\<rparr>)
               in Some (Inr h))
            else Some (Inr h))"

text \<open>
  \<open>SplitNodePortals\<close>.  \<open>map.planes.at\<close> throws beyond the end of the vector.  The
  winding's \<open>clip\<close> and \<open>WindingIsTiny\<close> are declared elsewhere and are parameters.
  Dereferencing a null pointer is \<open>Undefined\<close>.  \<open>new portal_t{*p}\<close> takes the next free
  address \<open>portal_brk\<close> and copies the record of \<open>p\<close> there.
\<close>

definition SPLIT_WINDING_EPSILON :: vec_t where
  "SPLIT_WINDING_EPSILON = 1 / 1000"

definition planes_at :: "mapplane_t list \<Rightarrow> int \<Rightarrow> error + mapplane_t" where
  "planes_at planes i =
     (if 0 \<le> i \<and> nat i < length planes then Inr (planes ! nat i) else Inl OutOfRange)"

definition AddPortalToNodes_ptr ::
  "('c, 'w) store \<Rightarrow> nat \<Rightarrow> nat option \<Rightarrow> nat option \<Rightarrow> error + ('c, 'w) store" where
  "AddPortalToNodes_ptr h p front back =
     (case front of
        None \<Rightarrow> Inl Undefined
      | Some front \<Rightarrow>
          (case back of None \<Rightarrow> Inl Undefined | Some back \<Rightarrow> AddPortalToNodes h p front back))"

definition new_portal_copy :: "('c, 'w) store \<Rightarrow> nat \<Rightarrow> ('c, 'w) store" where
  "new_portal_copy h p =
     h\<lparr>portal_mem := (portal_mem h)(portal_brk h := portal_mem h p),
       portal_brk := Suc (portal_brk h)\<rparr>"

definition discard_tiny ::
  "('w \<Rightarrow> bool) \<Rightarrow> 'w option \<Rightarrow> portalstats_t \<Rightarrow> 'w option \<times> portalstats_t" where
  "discard_tiny WindingIsTiny wnd stats =
     (case wnd of
        None \<Rightarrow> (None, stats)
      | Some x \<Rightarrow>
          if WindingIsTiny x then (None, stats\<lparr>c_tinyportals := c_tinyportals stats + 1\<rparr>)
          else (Some x, stats))"

text \<open>
  The part of the loop body after the two removals: the clip, the two tiny tests, and the
  four ways to go on.
\<close>

definition SplitNodePortals_cut ::
  "('w \<Rightarrow> mapplane_t \<Rightarrow> vec_t \<Rightarrow> bool \<Rightarrow> 'w option \<times> 'w option) \<Rightarrow> ('w \<Rightarrow> bool) \<Rightarrow> mapplane_t
     \<Rightarrow> nat option \<Rightarrow> nat option \<Rightarrow> ('c, 'w) store \<Rightarrow> portalstats_t \<Rightarrow> nat \<Rightarrow> planeside_t \<Rightarrow> nat option
     \<Rightarrow> error + ('c, 'w) store \<times> portalstats_t" where
  "SplitNodePortals_cut clip WindingIsTiny plane f b h stats p side other_node =
     (case winding (portal_mem h p) of
        None \<Rightarrow> Inl Undefined
      | Some wnd \<Rightarrow>
          let (frontwinding, backwinding) = clip wnd plane SPLIT_WINDING_EPSILON True;
              (frontwinding, stats) = discard_tiny WindingIsTiny frontwinding stats;
              (backwinding, stats) = discard_tiny WindingIsTiny backwinding stats
          in if frontwinding = None \<and> backwinding = None then Inr (h, stats)
             else if frontwinding = None then
               (case (if side = SIDE_FRONT then AddPortalToNodes_ptr h p b other_node
                      else AddPortalToNodes_ptr h p other_node b) of
                  Inl e \<Rightarrow> Inl e | Inr h \<Rightarrow> Inr (h, stats))
             else if backwinding = None then
               (case (if side = SIDE_FRONT then AddPortalToNodes_ptr h p f other_node
                      else AddPortalToNodes_ptr h p other_node f) of
                  Inl e \<Rightarrow> Inl e | Inr h \<Rightarrow> Inr (h, stats))
             else
               let new_portal = portal_brk h;
                   h = new_portal_copy h p;
                   h = upd_portal h new_portal (\<lambda>pt. pt\<lparr>winding := backwinding\<rparr>);
                   h = upd_portal h p (\<lambda>pt. pt\<lparr>winding := frontwinding\<rparr>)
               in if side = SIDE_FRONT then
                    (case AddPortalToNodes_ptr h p f other_node of
                       Inl e \<Rightarrow> Inl e
                     | Inr h \<Rightarrow>
                         (case AddPortalToNodes_ptr h new_portal b other_node of
                            Inl e \<Rightarrow> Inl e | Inr h \<Rightarrow> Inr (h, stats)))
                  else
                    (case AddPortalToNodes_ptr h p other_node f of
                       Inl e \<Rightarrow> Inl e
                     | Inr h \<Rightarrow>
                         (case AddPortalToNodes_ptr h new_portal other_node b of
                            Inl e \<Rightarrow> Inl e | Inr h \<Rightarrow> Inr (h, stats))))"

text \<open>
  One round of the loop: the side of \<open>node\<close>, \<open>next_portal\<close> and \<open>other_node\<close> are read
  before the portal is removed from both of its nodes.  The result carries \<open>next_portal\<close>.
\<close>

definition SplitNodePortals_body ::
  "('w \<Rightarrow> mapplane_t \<Rightarrow> vec_t \<Rightarrow> bool \<Rightarrow> 'w option \<times> 'w option) \<Rightarrow> ('w \<Rightarrow> bool) \<Rightarrow> mapplane_t
     \<Rightarrow> nat \<Rightarrow> nat option \<Rightarrow> nat option \<Rightarrow> ('c, 'w) store \<Rightarrow> portalstats_t \<Rightarrow> nat
     \<Rightarrow> (error + ('c, 'w) store \<times> portalstats_t \<times> nat option) option" where
  "SplitNodePortals_body clip WindingIsTiny plane node f b h stats p =
     (case (if nodes (portal_mem h p) SIDE_FRONT = Some node then Some SIDE_FRONT
            else if nodes (portal_mem h p) SIDE_BACK = Some node then Some SIDE_BACK
            else None) of
        None \<Rightarrow> Some (Inl (FError ''CutNodePortals_r: mislinked portal''))
      | Some side \<Rightarrow>
          let next_portal = next (portal_mem h p) side;
              other_node = nodes (portal_mem h p) (other_side side)
          in (case nodes (portal_mem h p) SIDE_FRONT of
                None \<Rightarrow> Some (Inl Undefined)
              | Some n0 \<Rightarrow>
                  Option.bind (RemovePortalFromNode h p n0) (\<lambda>r. case r of
                    Inl e \<Rightarrow> Some (Inl e)
                  | Inr h \<Rightarrow>
                      (case nodes (portal_mem h p) SIDE_BACK of
                         None \<Rightarrow> Some (Inl Undefined)
                       | Some n1 \<Rightarrow>
                           Option.bind (RemovePortalFromNode h p n1) (\<lambda>r. case r of
                             Inl e \<Rightarrow> Some (Inl e)
                           | Inr h \<Rightarrow>
                               (case SplitNodePortals_cut clip WindingIsTiny plane f b h stats p
                                       side other_node of
                                  Inl e \<Rightarrow> Some (Inl e)
                                | Inr (h, stats) \<Rightarrow> Some (Inr (h, stats, next_portal))))))))"

partial_function (option) SplitNodePortals_loop ::
  "('w \<Rightarrow> mapplane_t \<Rightarrow> vec_t \<Rightarrow> bool \<Rightarrow> 'w option \<times> 'w option) \<Rightarrow> ('w \<Rightarrow> bool) \<Rightarrow> mapplane_t
     \<Rightarrow> nat \<Rightarrow> nat option \<Rightarrow> nat option \<Rightarrow> ('c, 'w) store \<Rightarrow> portalstats_t \<Rightarrow> nat option
     \<Rightarrow> (error + ('c, 'w) store \<times> portalstats_t) option" where
  "SplitNodePortals_loop clip WindingIsTiny plane node f b h stats p =
     (case p of
        None \<Rightarrow> Some (Inr (h, stats))
      | Some p \<Rightarrow>
          Option.bind (SplitNodePortals_body clip WindingIsTiny plane node f b h stats p)
            (\<lambda>r. case r of
               Inl e \<Rightarrow> Some (Inl e)
             | Inr (h, stats, next_portal) \<Rightarrow>
                 SplitNodePortals_loop clip WindingIsTiny plane node f b h stats next_portal))"

text \<open>
  The function: the plane and the children are read at entry; after the loop the list
  head of the node is cleared.
\<close>

definition SplitNodePortals ::
  "('w \<Rightarrow> mapplane_t \<Rightarrow> vec_t \<Rightarrow> bool \<Rightarrow> 'w option \<times> 'w option) \<Rightarrow> ('w \<Rightarrow> bool)
     \<Rightarrow> mapplane_t list \<Rightarrow> ('c, 'w) store \<Rightarrow> portalstats_t \<Rightarrow> nat
     \<Rightarrow> (error + ('c, 'w) store \<times> portalstats_t) option" where
  "SplitNodePortals clip WindingIsTiny planes h stats node =
     (case planes_at planes (node_planenum (node_mem h node)) of
        Inl e \<Rightarrow> Some (Inl e)
      | Inr plane \<Rightarrow>
          let f = children (node_mem h node) SIDE_FRONT;
              b = children (node_mem h node) SIDE_BACK
          in Option.bind
               (SplitNodePortals_loop clip WindingIsTiny plane node f b h stats
                  (portals (node_mem h node)))
               (\<lambda>r. case r of
                  Inl e \<Rightarrow> Some (Inl e)
                | Inr (h, stats) \<Rightarrow>
                    Some (Inr (upd_node h node (\<lambda>n. n\<lparr>portals := None\<rparr>), stats))))"

subsection \<open>Portal lists\<close>

text \<open>
  The portal lists as values.  A portal is attached to a node when one of its endpoints
  is the node; \<open>side_of\<close> is the side on which it is (the front one is tested first, as
  the code does), and \<open>succ_in\<close> its link in the list of that node.  \<open>seg h n x ps y\<close>
  holds when following the links of the list of \<open>n\<close> from \<open>x\<close> passes through the portals
  \<open>ps\<close>, each attached to \<open>n\<close>, and arrives at \<open>y\<close>.
\<close>

definition attached :: "('c, 'w) store \<Rightarrow> nat \<Rightarrow> nat \<Rightarrow> bool" where
  "attached h p n =
     (nodes (portal_mem h p) SIDE_FRONT = Some n \<or> nodes (portal_mem h p) SIDE_BACK = Some n)"

definition side_of :: "('c, 'w) store \<Rightarrow> nat \<Rightarrow> nat \<Rightarrow> planeside_t" where
  "side_of h p n = (if nodes (portal_mem h p) SIDE_FRONT = Some n then SIDE_FRONT else SIDE_BACK)"

definition succ_in :: "('c, 'w) store \<Rightarrow> nat \<Rightarrow> nat \<Rightarrow> nat option" where
  "succ_in h n p = next (portal_mem h p) (side_of h p n)"

primrec seg :: "('c, 'w) store \<Rightarrow> nat \<Rightarrow> nat option \<Rightarrow> nat list \<Rightarrow> nat option \<Rightarrow> bool" where
  "seg h n x [] y = (x = y)"
| "seg h n x (p # ps) y = (x = Some p \<and> attached h p n \<and> seg h n (succ_in h n p) ps y)"

definition portal_list :: "('c, 'w) store \<Rightarrow> nat \<Rightarrow> nat list \<Rightarrow> bool" where
  "portal_list h n ps = seg h n (portals (node_mem h n)) ps None"

text \<open>
  The invariant of the portal graph: the list of every node holds exactly the portals
  attached to it, each once; no portal has the same node on both sides; the portals
  not yet allocated have no endpoint.
\<close>

definition valid :: "('c, 'w) store \<Rightarrow> bool" where
  "valid h =
     ((\<forall>n. \<exists>ps. portal_list h n ps \<and> distinct ps \<and> set ps = {p. attached h p n})
      \<and> (\<forall>p n. nodes (portal_mem h p) SIDE_FRONT = Some n \<longrightarrow>
                 nodes (portal_mem h p) SIDE_BACK \<noteq> Some n)
      \<and> (\<forall>p. portal_brk h \<le> p \<longrightarrow>
               nodes (portal_mem h p) SIDE_FRONT = None \<and> nodes (portal_mem h p) SIDE_BACK = None))"

text \<open>
  Auxiliary notions of the proofs: the element of a pair chosen by a side, the pointer
  at which the search of \<open>RemovePortalFromNode\<close> stops, and the store after attaching a
  portal with the side \<open>s\<close> at the node \<open>c\<close> and the other side at \<open>on\<close>.
\<close>

fun sel_side :: "planeside_t \<Rightarrow> 'a \<Rightarrow> 'a \<Rightarrow> 'a" where
  "sel_side SIDE_FRONT a b = a"
| "sel_side SIDE_BACK a b = b"

fun last_ref :: "('c, 'w) store \<Rightarrow> nat \<Rightarrow> portal_ref \<Rightarrow> nat list \<Rightarrow> portal_ref" where
  "last_ref h l pp [] = pp"
| "last_ref h l pp (x # xs) = last_ref h l (Link x (side_of h x l)) xs"

definition attach_post ::
  "('c, 'w) store \<Rightarrow> nat \<Rightarrow> planeside_t \<Rightarrow> nat \<Rightarrow> nat \<Rightarrow> ('c, 'w) store \<Rightarrow> bool" where
  "attach_post h p s c on h' =
     (valid h'
      \<and> (\<forall>q s'. nodes (portal_mem h' q) s' =
             (if q = p then (if s' = s then Some c else Some on) else nodes (portal_mem h q) s'))
      \<and> (\<forall>q. winding (portal_mem h' q) = winding (portal_mem h q))
      \<and> (\<forall>q. planenum (portal_mem h' q) = planenum (portal_mem h q))
      \<and> (\<forall>q. onnode (portal_mem h' q) = onnode (portal_mem h q))
      \<and> (\<forall>n. children (node_mem h' n) = children (node_mem h n))
      \<and> portal_brk h' = portal_brk h
      \<and> (\<forall>m ps. portal_list h m ps \<longrightarrow>
             portal_list h' m (if m = c \<or> m = on then p # ps else ps)))"

text \<open>
  What \<open>SplitNodePortals\<close> does with one portal.  \<open>kept\<close> is the fragment that survives
  the tiny test and \<open>tiny_count\<close> the increment of the counter.  \<open>split_outcome\<close> relates
  the record \<open>pt0\<close> of the portal before the call, with the node on its side \<open>s\<close>, to
  the store \<open>h'\<close> after it: no fragment, the portal has no endpoint; a back fragment
  only, it is attached to \<open>b\<close> on the side \<open>s\<close> with its winding as before; a front
  fragment only, likewise to \<open>f\<close>; both, it carries the front fragment at \<open>f\<close> and a
  portal allocated since carries the back fragment at \<open>b\<close>, with the plane number and
  \<open>onnode\<close> of the original.  The other endpoint is the one before the call.
\<close>

definition kept :: "('w \<Rightarrow> bool) \<Rightarrow> 'w option \<Rightarrow> 'w option" where
  "kept WindingIsTiny wnd =
     (case wnd of None \<Rightarrow> None | Some x \<Rightarrow> if WindingIsTiny x then None else Some x)"

definition tiny_count :: "('w \<Rightarrow> bool) \<Rightarrow> 'w option \<Rightarrow> nat" where
  "tiny_count WindingIsTiny wnd =
     (case wnd of None \<Rightarrow> 0 | Some x \<Rightarrow> if WindingIsTiny x then 1 else 0)"

definition split_outcome ::
  "('w \<Rightarrow> mapplane_t \<Rightarrow> vec_t \<Rightarrow> bool \<Rightarrow> 'w option \<times> 'w option) \<Rightarrow> ('w \<Rightarrow> bool) \<Rightarrow> mapplane_t
     \<Rightarrow> nat \<Rightarrow> nat \<Rightarrow> nat \<Rightarrow> 'w portal_t \<Rightarrow> planeside_t \<Rightarrow> ('c, 'w) store \<Rightarrow> nat \<Rightarrow> bool" where
  "split_outcome clip WindingIsTiny plane f b brk0 pt0 s h' p =
     (case winding pt0 of
        None \<Rightarrow> False
      | Some wnd \<Rightarrow>
          (let fw = kept WindingIsTiny (fst (clip wnd plane SPLIT_WINDING_EPSILON True));
               bw = kept WindingIsTiny (snd (clip wnd plane SPLIT_WINDING_EPSILON True));
               other = nodes pt0 (other_side s)
           in if fw = None \<and> bw = None then
                nodes (portal_mem h' p) SIDE_FRONT = None \<and> nodes (portal_mem h' p) SIDE_BACK = None
              else if fw = None then
                nodes (portal_mem h' p) s = Some b \<and> nodes (portal_mem h' p) (other_side s) = other
                \<and> winding (portal_mem h' p) = winding pt0
              else if bw = None then
                nodes (portal_mem h' p) s = Some f \<and> nodes (portal_mem h' p) (other_side s) = other
                \<and> winding (portal_mem h' p) = winding pt0
              else
                nodes (portal_mem h' p) s = Some f \<and> nodes (portal_mem h' p) (other_side s) = other
                \<and> winding (portal_mem h' p) = fw
                \<and> (\<exists>q. brk0 \<le> q \<and> nodes (portal_mem h' q) s = Some b
                       \<and> nodes (portal_mem h' q) (other_side s) = other
                       \<and> winding (portal_mem h' q) = bw
                       \<and> planenum (portal_mem h' q) = planenum pt0
                       \<and> onnode (portal_mem h' q) = onnode pt0)))"

definition tiny_fragments ::
  "('w \<Rightarrow> mapplane_t \<Rightarrow> vec_t \<Rightarrow> bool \<Rightarrow> 'w option \<times> 'w option) \<Rightarrow> ('w \<Rightarrow> bool) \<Rightarrow> mapplane_t
     \<Rightarrow> 'w portal_t \<Rightarrow> nat" where
  "tiny_fragments clip WindingIsTiny plane pt0 =
     (case winding pt0 of
        None \<Rightarrow> 0
      | Some wnd \<Rightarrow>
          tiny_count WindingIsTiny (fst (clip wnd plane SPLIT_WINDING_EPSILON True))
          + tiny_count WindingIsTiny (snd (clip wnd plane SPLIT_WINDING_EPSILON True)))"

text \<open>
  The first element of a list as a pointer; two stores agree on a portal when the
  fields other than its links are equal; a portal of \<open>node\<close> can be moved to the children
  when it has a winding and its other endpoint is set and is none of the children.
\<close>

definition head_of :: "nat list \<Rightarrow> nat option" where
  "head_of ps = (case ps of [] \<Rightarrow> None | q # _ \<Rightarrow> Some q)"

definition same_fields :: "('c, 'w) store \<Rightarrow> ('c, 'w) store \<Rightarrow> nat \<Rightarrow> bool" where
  "same_fields h h' q =
     (nodes (portal_mem h' q) = nodes (portal_mem h q)
      \<and> winding (portal_mem h' q) = winding (portal_mem h q)
      \<and> planenum (portal_mem h' q) = planenum (portal_mem h q)
      \<and> onnode (portal_mem h' q) = onnode (portal_mem h q))"

definition splittable :: "('c, 'w) store \<Rightarrow> nat \<Rightarrow> nat \<Rightarrow> nat \<Rightarrow> nat \<Rightarrow> bool" where
  "splittable h node fn bn p =
     (case nodes (portal_mem h p) (other_side (side_of h p node)) of
        None \<Rightarrow> False
      | Some on \<Rightarrow> fn \<noteq> on \<and> bn \<noteq> on \<and> winding (portal_mem h p) \<noteq> None)"

section \<open>Face merging (merge.cc)\<close>

record 'c face_t =
  w :: "qvec3d list"
  face_planenum :: nat
  planeside :: bool
  texinfo :: int
  face_contents :: 'c
  lmshift :: int

text \<open>
  Modelled from the spec: \<open>qv::normalize\<close> is declared outside the sources at hand; it
  divides a vector by its length.  (For the zero vector HOL's division yields the zero
  vector, where the compiler computes NaN.)
\<close>

definition qv_normalize :: "qvec3d \<Rightarrow> qvec3d" where
  "qv_normalize v = qv_scale v (1 / qv_length v)"

text \<open>
  Modelled from the spec: \<open>NewFaceFromFace\<close> is defined outside the sources at hand; the
  new face carries the attributes of the given one and an empty winding.
  \<open>UpdateFaceSphere\<close> only sets a bounding sphere, which is not modelled.
\<close>

definition NewFaceFromFace :: "'c face_t \<Rightarrow> 'c face_t" where
  "NewFaceFromFace f = f\<lparr>w := []\<rparr>"

text \<open>
  The search for a common edge: the innermost loop over the three coordinates
  (\<open>edge_matches\<close>, it breaks at the first coordinate out of tolerance), the loop over the
  edges \<open>j\<close> of the second face (it stops at the first match), and the loop over the
  edges \<open>i\<close> of the first face (it stops at the first \<open>i\<close> with a match).
\<close>

definition edge_matches :: "vec_t \<Rightarrow> qvec3d \<Rightarrow> qvec3d \<Rightarrow> qvec3d \<Rightarrow> qvec3d \<Rightarrow> bool" where
  "edge_matches EQUAL_EPSILON p1 p2 p3 p4 =
     list_all (\<lambda>k. \<not> (\<bar>qv_at p1 k - qv_at p4 k\<bar> > EQUAL_EPSILON
                     \<or> \<bar>qv_at p2 k - qv_at p3 k\<bar> > EQUAL_EPSILON)) [0, 1, 2]"

primrec first_some :: "('a \<Rightarrow> 'b option) \<Rightarrow> 'a list \<Rightarrow> ('a \<times> 'b) option" where
  "first_some f [] = None"
| "first_some f (x # xs) = (case f x of Some y \<Rightarrow> Some (x, y) | None \<Rightarrow> first_some f xs)"

definition find_common_edge :: "vec_t \<Rightarrow> qvec3d list \<Rightarrow> qvec3d list \<Rightarrow> (nat \<times> nat) option" where
  "find_common_edge EQUAL_EPSILON w1 w2 =
     first_some (\<lambda>i.
         let p1 = w1 ! i; p2 = w1 ! ((i + 1) mod length w1)
         in find (\<lambda>j.
              let p3 = w2 ! j; p4 = w2 ! ((j + 1) mod length w2)
              in edge_matches EQUAL_EPSILON p1 p2 p3 p4) [0..<length w2])
       [0..<length w1]"

text \<open>
  The copy loops \<open>for (; k != i; k = (k + 1) % n) push_back(w[k])\<close>.  The code only runs
  them on indices below \<open>n\<close>; the guard keeps the function total elsewhere.
\<close>

lemma copy_winding_step:
  fixes k i n :: nat
  assumes ki: "k \<noteq> i" and kn: "k < n" and "i < n"
  shows "(i + n - Suc k mod n) mod n < (i + n - k) mod n"
proof (cases "k < i")
  case True
  from True have "i + n - k = (i - k) + n" by arith
  then have "(i + n - k) mod n = (i - k) mod n" by (simp only: mod_add_self2)
  with \<open>i < n\<close> have e1: "(i + n - k) mod n = i - k" by (simp add: less_imp_diff_less)
  from True \<open>i < n\<close> have k1: "Suc k mod n = Suc k" by simp
  from True have "i + n - Suc k = (i - Suc k) + n" by arith
  then have "(i + n - Suc k) mod n = (i - Suc k) mod n" by (simp only: mod_add_self2)
  with \<open>i < n\<close> have e2: "(i + n - Suc k) mod n = i - Suc k" by (simp add: less_imp_diff_less)
  have "i - Suc k < i - k" using True by arith
  then show ?thesis by (simp only: k1 e1 e2)
next
  case False
  with ki have ik: "i < k" by simp
  with kn have m: "i + n - k < n" by arith
  then have m': "(i + n - k) mod n = i + n - k" by simp
  show ?thesis
  proof (cases "Suc k = n")
    case True
    then have "Suc k mod n = 0" by simp
    moreover have "(i + n) mod n = i" using \<open>i < n\<close> by simp
    moreover have "i < i + n - k" using kn by arith
    ultimately show ?thesis by (simp only: m' diff_zero)
  next
    case False
    with kn have k1: "Suc k mod n = Suc k" by simp
    from ik kn have "i + n - Suc k < n" by arith
    then have e: "(i + n - Suc k) mod n = i + n - Suc k" by simp
    have "i + n - Suc k < i + n - k" using ik kn by arith
    then show ?thesis by (simp only: k1 e m')
  qed
qed

function copy_winding :: "qvec3d list \<Rightarrow> nat \<Rightarrow> nat \<Rightarrow> qvec3d list \<Rightarrow> qvec3d list" where
  "copy_winding wnd k i acc =
     (if k \<noteq> i \<and> k < length wnd \<and> i < length wnd
      then copy_winding wnd ((k + 1) mod length wnd) i (acc @ [wnd ! k])
      else acc)"
  by pat_completeness auto
termination
proof (relation "measure (\<lambda>(wnd, k, i, acc). (i + length wnd - k) mod length wnd)")
  show "wf (measure (\<lambda>(wnd, k, i, acc). (i + length wnd - k) mod length wnd))" by simp
next
  fix wnd :: "qvec3d list" and k i :: nat and acc :: "qvec3d list"
  assume "k \<noteq> i \<and> k < length wnd \<and> i < length wnd"
  then have "(i + length wnd - Suc k mod length wnd) mod length wnd
      < (i + length wnd - k) mod length wnd"
    by (intro copy_winding_step) simp_all
  then show "((wnd, (k + 1) mod length wnd, i, acc @ [wnd ! k]), wnd, k, i, acc)
          \<in> measure (\<lambda>(wnd, k, i, acc). (i + length wnd - k) mod length wnd)"
    by simp
qed

declare copy_winding.simps [simp del]

text \<open>
  \<open>TryMerge\<close>.  The constants \<open>EQUAL_EPSILON\<close>, \<open>CONTINUOUS_EPSILON\<close> and \<open>MAXEDGES\<close> are
  declared elsewhere and are parameters; \<open>NULL\<close> is \<open>None\<close>; \<open>map.planes[planenum]\<close> out
  of range is \<open>Undefined\<close>.  (\<open>normal'\<close> is the source's local \<open>normal\<close>.)
\<close>

definition TryMerge ::
  "vec_t \<Rightarrow> vec_t \<Rightarrow> nat \<Rightarrow> mapplane_t list \<Rightarrow> 'c face_t \<Rightarrow> 'c face_t \<Rightarrow> error + 'c face_t option" where
  "TryMerge EQUAL_EPSILON CONTINUOUS_EPSILON MAXEDGES planes f1 f2 =
     (let n1 = length (w f1); n2 = length (w f2) in
      if n1 = 0 \<or> n2 = 0 \<or> planeside f1 \<noteq> planeside f2 \<or> texinfo f1 \<noteq> texinfo f2
         \<or> face_contents f1 \<noteq> face_contents f2 \<or> lmshift f1 \<noteq> lmshift f2
      then Inr None
      else (case find_common_edge EQUAL_EPSILON (w f1) (w f2) of
        None \<Rightarrow> Inr None
      | Some (i, j) \<Rightarrow>
          if face_planenum f1 \<ge> length planes then Inl Undefined
          else
            let p1 = w f1 ! i;
                p2 = w f1 ! ((i + 1) mod n1);
                plane = planes ! face_planenum f1;
                planenormal = (if planeside f1 then qv_neg (normal plane) else normal plane);
                back = w f1 ! ((i + n1 - 1) mod n1);
                delta = qv_sub p1 back;
                normal' = qv_normalize (qv_cross planenormal delta);
                back = w f2 ! ((j + 2) mod n2);
                delta = qv_sub back p1;
                dot = qv_dot delta normal'
            in if dot > CONTINUOUS_EPSILON then Inr None
               else
                 let keep1 = (dot < - CONTINUOUS_EPSILON);
                     back = w f1 ! ((i + 2) mod n1);
                     delta = qv_sub back p2;
                     normal' = qv_normalize (qv_cross planenormal delta);
                     back = w f2 ! ((j + n2 - 1) mod n2);
                     delta = qv_sub back p2;
                     dot = qv_dot delta normal'
                 in if dot > CONTINUOUS_EPSILON then Inr None
                    else
                      let keep2 = (dot < - CONTINUOUS_EPSILON) in
                      if n1 + n2 > MAXEDGES then Inr None
                      else
                        let newf = NewFaceFromFace f1;
                            k = (if keep2 then (i + 1) mod n1 else (i + 2) mod n1);
                            newf = newf\<lparr>w := copy_winding (w f1) k i (w newf)\<rparr>;
                            l = (if keep1 then (j + 1) mod n2 else (j + 2) mod n2);
                            newf = newf\<lparr>w := copy_winding (w f2) l j (w newf)\<rparr>
                        in Inr (Some newf)))"



section \<open>T-junctions (tjunc.cc)\<close>

record tjunc_stats_t =
  degenerate :: nat
  tjunctions :: nat
  faceoverflows :: nat
  facecollapse :: nat
  rotates :: nat
  norotates :: nat
  retopology :: nat
  faceretopology :: nat
  mwt :: nat
  trimwt :: nat
  facemwt :: nat

text \<open>
  \<open>PointOnEdge\<close>; the constant \<open>DEFAULT_ON_EPSILON\<close> is declared elsewhere and is a
  parameter.  (\<open>dist'\<close> and \<open>endd\<close> are the source's \<open>dist\<close> and \<open>end\<close>.)
\<close>

definition PointOnEdge ::
  "vec_t \<Rightarrow> qvec3d \<Rightarrow> qvec3d \<Rightarrow> qvec3d \<Rightarrow> vec_t \<Rightarrow> vec_t \<Rightarrow> vec_t option" where
  "PointOnEdge DEFAULT_ON_EPSILON p edge_start edge_dir start endd =
     (let delta = qv_sub p edge_start;
          dist' = qv_dot delta edge_dir
      in if dist' \<le> start \<or> dist' \<ge> endd then None
         else let exact = qv_add edge_start (qv_scale edge_dir dist');
                  off = qv_sub p exact;
                  error = qv_length off
              in if \<bar>error\<bar> > DEFAULT_ON_EPSILON then None else Some dist')"

text \<open>
  The \<open>for\<close> loop of \<open>TestEdge\<close>, from candidate index \<open>k\<close>: it skips the candidates equal
  to an endpoint or off the edge and stops at the first interior vertex, returning its
  candidate index and its distance.  The vertex table \<open>map.bsp.dvertexes\<close> is read as a
  function of the vertex number.
\<close>

function TestEdge_scan ::
  "vec_t \<Rightarrow> (nat \<Rightarrow> qvec3d) \<Rightarrow> vec_t \<Rightarrow> vec_t \<Rightarrow> nat \<Rightarrow> nat \<Rightarrow> nat list \<Rightarrow> qvec3d \<Rightarrow> qvec3d \<Rightarrow> nat
     \<Rightarrow> (nat \<times> vec_t) option" where
  "TestEdge_scan eps dvertexes start endd p1 p2 edge_verts edge_start edge_dir k =
     (if k < length edge_verts then
        (let j = edge_verts ! k in
         if j = p1 \<or> j = p2 then
           TestEdge_scan eps dvertexes start endd p1 p2 edge_verts edge_start edge_dir (k + 1)
         else (case PointOnEdge eps (dvertexes j) edge_start edge_dir start endd of
                 None \<Rightarrow> TestEdge_scan eps dvertexes start endd p1 p2 edge_verts edge_start edge_dir (k + 1)
               | Some dist' \<Rightarrow> Some (k, dist')))
      else None)"
  by pat_completeness auto
termination
  by (relation "measure (\<lambda>(eps, dv, s, e, p1, p2, edge_verts, es, ed, k). length edge_verts - k)") auto

declare TestEdge_scan.simps [simp del]

lemma TestEdge_scan_bounds:
  "TestEdge_scan eps dv s e p1 p2 edge_verts es ed k = Some (k', d) \<Longrightarrow>
     k \<le> k' \<and> k' < length edge_verts \<and> edge_verts ! k' \<noteq> p1 \<and> edge_verts ! k' \<noteq> p2
     \<and> PointOnEdge eps (dv (edge_verts ! k')) es ed s e = Some d"
proof (induction eps dv s e p1 p2 edge_verts es ed k rule: TestEdge_scan.induct)
  case (1 eps dv s e p1 p2 edge_verts es ed k)
  from "1.prems" have lt: "k < length edge_verts"
    by (subst (asm) TestEdge_scan.simps) (simp split: if_splits)
  show ?case
  proof (cases "edge_verts ! k = p1 \<or> edge_verts ! k = p2")
    case True
    with lt "1.prems" have "TestEdge_scan eps dv s e p1 p2 edge_verts es ed (k + 1) = Some (k', d)"
      by (subst (asm) TestEdge_scan.simps) (simp add: Let_def)
    with "1.IH"(1) [OF lt refl True] show ?thesis by simp
  next
    case False
    show ?thesis
    proof (cases "PointOnEdge eps (dv (edge_verts ! k)) es ed s e")
      case None
      with lt False "1.prems"
      have "TestEdge_scan eps dv s e p1 p2 edge_verts es ed (k + 1) = Some (k', d)"
        by (subst (asm) TestEdge_scan.simps) (simp add: Let_def)
      with "1.IH"(2) [OF lt refl False None] show ?thesis by simp
    next
      case (Some d')
      with lt False "1.prems" have "k' = k \<and> d = d'"
        by (subst (asm) TestEdge_scan.simps) (simp add: Let_def)
      with lt False Some show ?thesis by simp
    qed
  qed
qed

text \<open>
  \<open>TestEdge\<close>, with the output vector \<open>superface\<close> and the counters passed through.  Both
  recursive calls start at candidate \<open>k + 1\<close>, which the measure
  \<open>length edge_verts - startvert\<close> turns into the termination proof.
\<close>

function TestEdge ::
  "vec_t \<Rightarrow> (nat \<Rightarrow> qvec3d) \<Rightarrow> vec_t \<Rightarrow> vec_t \<Rightarrow> nat \<Rightarrow> nat \<Rightarrow> nat \<Rightarrow> nat list \<Rightarrow> qvec3d \<Rightarrow> qvec3d
     \<Rightarrow> nat list \<Rightarrow> tjunc_stats_t \<Rightarrow> nat list \<times> tjunc_stats_t" where
  "TestEdge eps dvertexes start endd p1 p2 startvert edge_verts edge_start edge_dir superface stats =
     (if p1 = p2 then (superface, stats\<lparr>degenerate := degenerate stats + 1\<rparr>)
      else (case TestEdge_scan eps dvertexes start endd p1 p2 edge_verts edge_start edge_dir startvert of
          Some (k, dist') \<Rightarrow>
            (let j = edge_verts ! k;
                 stats1 = stats\<lparr>tjunctions := tjunctions stats + 1\<rparr>;
                 (superface1, stats2) =
                    TestEdge eps dvertexes start dist' p1 j (k + 1) edge_verts edge_start edge_dir
                      superface stats1
             in TestEdge eps dvertexes dist' endd j p2 (k + 1) edge_verts edge_start edge_dir
                  superface1 stats2)
        | None \<Rightarrow> (superface @ [p1], stats)))"
  by pat_completeness auto
termination
  by (relation "measure (\<lambda>(eps, dv, s, e, p1, p2, startvert, edge_verts, es, ed, sf, st).
         length edge_verts - startvert)")
    (auto dest!: TestEdge_scan_bounds)

declare TestEdge.simps [simp del]

text \<open>
  The repair level \<open>qbsp_options.tjunc\<close>, compared with \<open>>=\<close> in the code through the order
  of the enumeration.
\<close>

datatype tjunclevel_t = NONE | ROTATE | RETOPOLOGIZE | MWT

fun tjunclevel_rank :: "tjunclevel_t \<Rightarrow> nat" where
  "tjunclevel_rank NONE = 0"
| "tjunclevel_rank ROTATE = 1"
| "tjunclevel_rank RETOPOLOGIZE = 2"
| "tjunclevel_rank MWT = 3"

text \<open>
  Of a face, the T-junction pass reads \<open>original_vertices\<close> and writes \<open>fragments\<close> (a
  \<open>face_fragment_t\<close> is its vector \<open>output_vertices\<close>).
\<close>

record tjunc_face_t =
  original_vertices :: "nat list"
  fragments :: "nat list list"

text \<open>
  \<open>SplitFaceIntoFragments\<close>.  In its only call the vector \<open>superface\<close> is an element of the
  list \<open>output\<close>: the model takes the list and the position \<open>i\<close> of that element, so that
  the writes to \<open>superface\<close> are writes into the list.  The \<open>while\<close> loop need not terminate
  (for \<open>maxedges \<le> 2\<close> the vector does not shrink), hence the option type: \<open>None\<close> is a
  loop that runs forever.  After the loop the first element of the list is moved to the
  end (\<open>splice\<close>).
\<close>

partial_function (option) SplitFaceIntoFragments_while ::
  "nat \<Rightarrow> nat list list \<Rightarrow> nat \<Rightarrow> tjunc_stats_t \<Rightarrow> (nat list list \<times> tjunc_stats_t) option" where
  "SplitFaceIntoFragments_while maxedges output i stats =
     (let superface = output ! i in
      if length superface > maxedges then
        (let stats = stats\<lparr>faceoverflows := faceoverflows stats + 1\<rparr>;
             newf = take maxedges superface;
             output = output @ [newf];
             superface = take 1 superface @ drop (maxedges - 1) superface;
             output = output[i := superface]
         in SplitFaceIntoFragments_while maxedges output i stats)
      else Some (output, stats))"

definition SplitFaceIntoFragments ::
  "nat \<Rightarrow> nat list list \<Rightarrow> nat \<Rightarrow> tjunc_stats_t \<Rightarrow> (nat list list \<times> tjunc_stats_t) option" where
  "SplitFaceIntoFragments maxedges output i stats =
     Option.bind (SplitFaceIntoFragments_while maxedges output i stats)
       (\<lambda>(output, stats). Some (tl output @ [hd output], stats))"

text \<open>
  The loop \<open>for (auto &face : faces)\<close> of \<open>FixFaceEdges\<close>, with the iterator as the position
  \<open>i\<close> in the list: an iterator of a \<open>std::list\<close> follows its element, so after the splice
  the current element is the last one when it was the first, and one position earlier
  otherwise; then the iterator is incremented.
\<close>

partial_function (option) FixFaceEdges_split ::
  "nat \<Rightarrow> nat list list \<Rightarrow> nat \<Rightarrow> tjunc_stats_t \<Rightarrow> (error + nat list list \<times> tjunc_stats_t) option" where
  "FixFaceEdges_split maxedges faces i stats =
     (if i \<ge> length faces then Some (Inr (faces, stats))
      else if \<not> length (faces ! i) \<ge> 3 then Some (Inl (AssertFailed ''face.size() >= 3''))
      else Option.bind (SplitFaceIntoFragments maxedges faces i stats)
        (\<lambda>(faces', stats').
           let i' = (if i = 0 then length faces' - 1 else i - 1) in
           if \<not> length (faces' ! i') \<ge> 3 then Some (Inl (AssertFailed ''face.size() >= 3''))
           else FixFaceEdges_split maxedges faces' (i' + 1) stats'))"


text \<open>\<open>AngleOfTriangle\<close> and \<open>TriangleIsValid\<close>, over the reals.\<close>

definition AngleOfTriangle :: "qvec3d \<Rightarrow> qvec3d \<Rightarrow> qvec3d \<Rightarrow> vec_t" where
  "AngleOfTriangle a b c =
     (let num = (qv_at b 0 - qv_at a 0) * (qv_at c 0 - qv_at a 0)
              + (qv_at b 1 - qv_at a 1) * (qv_at c 1 - qv_at a 1)
              + (qv_at b 2 - qv_at a 2) * (qv_at c 2 - qv_at a 2);
          den = sqrt ((qv_at b 0 - qv_at a 0)\<^sup>2 + (qv_at b 1 - qv_at a 1)\<^sup>2 + (qv_at b 2 - qv_at a 2)\<^sup>2)
              * sqrt ((qv_at c 0 - qv_at a 0)\<^sup>2 + (qv_at c 1 - qv_at a 1)\<^sup>2 + (qv_at c 2 - qv_at a 2)\<^sup>2)
      in arccos (num / den) * (180 / pi))"

definition TriangleIsValid :: "(nat \<Rightarrow> qvec3d) \<Rightarrow> nat \<Rightarrow> nat \<Rightarrow> nat \<Rightarrow> vec_t \<Rightarrow> bool" where
  "TriangleIsValid dvertexes v0 v1 v2 angle_epsilon =
     (if AngleOfTriangle (dvertexes v0) (dvertexes v1) (dvertexes v2) < angle_epsilon
         \<or> AngleOfTriangle (dvertexes v1) (dvertexes v2) (dvertexes v0) < angle_epsilon
         \<or> AngleOfTriangle (dvertexes v2) (dvertexes v0) (dvertexes v1) < angle_epsilon
      then False else True)"

text \<open>
  What \<open>FixFaceEdges\<close> reads besides the face: the options \<open>tjunc\<close> and \<open>maxedges\<close>, the
  constant \<open>DEFAULT_ON_EPSILON\<close>, the vertex table, and four functions that are parameters
  here, so that every statement below holds whatever they compute: the collection of
  candidate vertices near an edge (\<open>FindEdgeVerts_FaceBounds\<close>, a walk over the tree),
  the triangulation and the fan packing behind \<open>mwt_face\<close>, and \<open>RetopologizeFace\<close>.
\<close>

record tjunc_env =
  env_tjunc :: tjunclevel_t
  env_maxedges :: nat
  env_on_epsilon :: vec_t
  env_dvertexes :: "nat \<Rightarrow> qvec3d"
  env_FindEdgeVerts :: "qvec3d \<Rightarrow> qvec3d \<Rightarrow> nat list"
  env_triangulate :: "tjunc_face_t \<Rightarrow> nat list \<Rightarrow> (nat \<times> nat \<times> nat) list"
  env_compress_triangles_into_fans :: "(nat \<times> nat \<times> nat) list \<Rightarrow> nat list \<Rightarrow> nat list list"
  env_RetopologizeFace :: "tjunc_face_t \<Rightarrow> nat list \<Rightarrow> nat list list"

definition CreateSuperFace :: "tjunc_env \<Rightarrow> tjunc_face_t \<Rightarrow> tjunc_stats_t \<Rightarrow> nat list \<times> tjunc_stats_t" where
  "CreateSuperFace env f stats =
     fold (\<lambda>i (superface, stats).
         let v1 = original_vertices f ! i;
             v2 = original_vertices f ! ((i + 1) mod length (original_vertices f));
             edge_start = env_dvertexes env v1;
             e2 = env_dvertexes env v2;
             edge_verts = env_FindEdgeVerts env edge_start e2;
             len = qv_length (qv_sub e2 edge_start);
             edge_dir = qv_normalize (qv_sub e2 edge_start)
         in TestEdge (env_on_epsilon env) (env_dvertexes env) 0 len v1 v2 0 edge_verts
              edge_start edge_dir superface stats)
       [0..<length (original_vertices f)] ([], stats)"

definition mwt_face ::
  "tjunc_env \<Rightarrow> tjunc_face_t \<Rightarrow> nat list \<Rightarrow> tjunc_stats_t \<Rightarrow> nat list list \<times> tjunc_stats_t" where
  "mwt_face env f vertices stats =
     (let tris = env_triangulate env f vertices;
          stats = stats\<lparr>trimwt := trimwt stats + length tris\<rparr>
      in (env_compress_triangles_into_fans env tris vertices, stats))"

text \<open>
  The search for a fan base in \<open>FixFaceEdges\<close>: the first \<open>i\<close> such that all fan triangles
  \<open>(i, i + x + 1, i + x + 2)\<close> are valid; \<open>None\<close> is the source's \<open>i == superface.size()\<close>.
\<close>

definition rotation_search :: "(nat \<Rightarrow> qvec3d) \<Rightarrow> nat list \<Rightarrow> nat option" where
  "rotation_search dvertexes superface =
     find (\<lambda>i. list_all (\<lambda>x.
             TriangleIsValid dvertexes (superface ! i)
               (superface ! ((i + x + 1) mod length superface))
               (superface ! ((i + x + 2) mod length superface)) (1 / 100))
           [0..<length superface - 2])
       [0..<length superface]"

text \<open>
  \<open>FixFaceEdges\<close> in three parts: the repair levels up to the list \<open>faces\<close>
  (\<open>FixFaceEdges_repair\<close>), the fragmentation and the move into the face
  (\<open>FixFaceEdges_store\<close>), and the function itself with its early returns.
\<close>

definition FixFaceEdges_repair ::
  "tjunc_env \<Rightarrow> tjunc_face_t \<Rightarrow> nat list \<Rightarrow> tjunc_stats_t \<Rightarrow> nat list list \<times> tjunc_stats_t" where
  "FixFaceEdges_repair env f superface stats =
     (let (faces, stats) =
            (if tjunclevel_rank (env_tjunc env) \<ge> tjunclevel_rank MWT then
               (let (faces, stats) = mwt_face env f superface stats in
                if faces \<noteq> [] then
                  (faces, stats\<lparr>mwt := mwt stats + 1,
                                 facemwt := facemwt stats + (length faces - 1)\<rparr>)
                else (faces, stats))
             else ([], stats));
          (faces, stats) =
            (if faces = [] \<and> tjunclevel_rank (env_tjunc env) \<ge> tjunclevel_rank ROTATE then
               (case rotation_search (env_dvertexes env) superface of
                  None \<Rightarrow>
                    (let (faces, stats) =
                           (if tjunclevel_rank (env_tjunc env) \<ge> tjunclevel_rank RETOPOLOGIZE then
                              (let retopology' = env_RetopologizeFace env f superface in
                               if length retopology' > 1 then
                                 (retopology',
                                  stats\<lparr>retopology := retopology stats + 1,
                                         faceretopology := faceretopology stats + (length retopology' - 1)\<rparr>)
                               else (faces, stats))
                            else (faces, stats))
                     in if faces = [] then (faces, stats\<lparr>norotates := norotates stats + 1\<rparr>)
                        else (faces, stats))
                | Some i \<Rightarrow>
                    if i \<noteq> 0 then
                      (faces @ [drop i superface @ take i superface],
                       stats\<lparr>rotates := rotates stats + 1\<rparr>)
                    else (faces, stats))
             else (faces, stats))
      in if faces = [] then (faces @ [superface], stats) else (faces, stats))"

definition FixFaceEdges_store ::
  "nat \<Rightarrow> tjunc_face_t \<Rightarrow> nat list list \<Rightarrow> tjunc_stats_t
     \<Rightarrow> (error + tjunc_face_t \<times> tjunc_stats_t) option" where
  "FixFaceEdges_store maxedges f faces stats =
     (if faces = [] then Some (Inl (AssertFailed ''faces.size()''))
      else Option.bind
        (if maxedges \<noteq> 0 then FixFaceEdges_split maxedges faces 0 stats
         else Some (Inr (faces, stats)))
        (\<lambda>r. case r of
           Inl e \<Rightarrow> Some (Inl e)
         | Inr (faces, stats) \<Rightarrow>
             (let f = f\<lparr>fragments := fragments f @ faces\<rparr> in
              if list_all (\<lambda>frag. length frag \<ge> 3) (fragments f) then Some (Inr (f, stats))
              else Some (Inl (AssertFailed ''frag.output_vertices.size() >= 3'')))))"

definition FixFaceEdges ::
  "tjunc_env \<Rightarrow> tjunc_face_t \<Rightarrow> tjunc_stats_t \<Rightarrow> (error + tjunc_face_t \<times> tjunc_stats_t) option" where
  "FixFaceEdges env f stats =
     (if env_tjunc env = NONE then
        Some (Inr (f\<lparr>fragments := fragments f @ [original_vertices f]\<rparr>, stats))
      else
        (let (superface, stats) = CreateSuperFace env f stats in
         if length superface < 3 then
           Some (Inr (f, stats\<lparr>facecollapse := facecollapse stats + 1\<rparr>))
         else if length superface = 3 then
           Some (Inr (f\<lparr>fragments := fragments f @ [original_vertices f]\<rparr>, stats))
         else
           (let (faces, stats) = FixFaceEdges_repair env f superface stats
            in FixFaceEdges_store (env_maxedges env) f faces stats)))"

text \<open>
  The loop of \<open>TJunc\<close> over the faces found in the tree.  The list is the order in which
  the faces are taken up; every call works on its own face and on the counters, which
  are the only data the calls share.  \<open>face_result\<close> forgets the counters of an outcome,
  and \<open>face_alone\<close> is the face a single call leaves, started with the counters \<open>st\<close>.
\<close>

fun TJunc_faces ::
  "tjunc_env \<Rightarrow> tjunc_face_t list \<Rightarrow> tjunc_stats_t \<Rightarrow> (error + tjunc_face_t list \<times> tjunc_stats_t) option" where
  "TJunc_faces env [] stats = Some (Inr ([], stats))"
| "TJunc_faces env (f # fs) stats =
     Option.bind (FixFaceEdges env f stats) (\<lambda>r. case r of
        Inl e \<Rightarrow> Some (Inl e)
      | Inr (f', stats) \<Rightarrow>
          Option.bind (TJunc_faces env fs stats) (\<lambda>r. case r of
             Inl e \<Rightarrow> Some (Inl e)
           | Inr (fs', stats) \<Rightarrow> Some (Inr (f' # fs', stats))))"

definition face_result :: "(error + 'a \<times> tjunc_stats_t) option \<Rightarrow> (error + 'a) option" where
  "face_result r = map_option (map_sum id fst) r"

definition face_alone :: "tjunc_env \<Rightarrow> tjunc_stats_t \<Rightarrow> tjunc_face_t \<Rightarrow> tjunc_face_t" where
  "face_alone env st f =
     (case FixFaceEdges env f st of Some (Inr (f', st')) \<Rightarrow> f' | _ \<Rightarrow> f)"





section \<open>Example data\<close>

text \<open>
  A store with two leaves, node 0 empty and node 1 solid (the contents type is \<open>bool\<close>,
  read as "solid"), an interior node 2, and two portals: portal 0 between the two
  leaves, portal 1 between leaf 0 and the interior node.
\<close>

definition flood_store :: "(bool, unit) store" where
  "flood_store =
     \<lparr>node_mem = (\<lambda>n. \<lparr>node_planenum = (if n = 2 then 4 else - 1), children = (\<lambda>_. None),
                          contents = (n = 1), portals = None\<rparr>),
      portal_mem = (\<lambda>p. \<lparr>planenum = 0, onnode = None,
                          nodes = (\<lambda>s. if s = SIDE_FRONT then Some 0 else if p = 0 then Some 1 else Some 2),
                          next = (\<lambda>_. None), winding = None\<rparr>),
      portal_brk = 2\<rparr>"

text \<open>
  Three vertices on the x axis: vertex 2 lies in the middle of the edge from vertex 0
  to vertex 1.
\<close>

definition tjunc_stats_zero :: tjunc_stats_t where
  "tjunc_stats_zero = \<lparr>degenerate = 0, tjunctions = 0, faceoverflows = 0, facecollapse = 0,
     rotates = 0, norotates = 0, retopology = 0, faceretopology = 0, mwt = 0, trimwt = 0,
     facemwt = 0\<rparr>"

definition edge_points :: "nat \<Rightarrow> qvec3d" where
  "edge_points j = (if j = 0 then (0, 0, 0) else if j = 1 then (2, 0, 0) else (1, 0, 0))"

text \<open>
  Two unit squares in the plane \<open>z = 0\<close> that share the edge from \<open>(1, 0, 0)\<close> to
  \<open>(1, 1, 0)\<close>; the plane number of the right one is left open.  The registry holds
  the plane \<open>z = 0\<close> twice (ids 0 and 2) with the negations after each.
\<close>

definition merge_planes :: "mapplane_t list" where
  "merge_planes =
     [\<lparr>normal = (0, 0, 1), dist = 0, outputnum = None\<rparr>,
      \<lparr>normal = (0, 0, - 1), dist = 0, outputnum = None\<rparr>,
      \<lparr>normal = (0, 0, 1), dist = 0, outputnum = None\<rparr>,
      \<lparr>normal = (0, 0, - 1), dist = 0, outputnum = None\<rparr>]"

definition merge_left :: "unit face_t" where
  "merge_left = \<lparr>w = [(0, 0, 0), (1, 0, 0), (1, 1, 0), (0, 1, 0)], face_planenum = 0,
     planeside = False, texinfo = 3, face_contents = (), lmshift = 4\<rparr>"

definition merge_right :: "nat \<Rightarrow> unit face_t" where
  "merge_right pn = \<lparr>w = [(1, 0, 0), (2, 0, 0), (2, 1, 0), (1, 1, 0)], face_planenum = pn,
     planeside = False, texinfo = 3, face_contents = (), lmshift = 4\<rparr>"

text \<open>
  A face of twelve vertices, and an environment with the repair level \<open>NONE\<close> and
  \<open>maxedges = 8\<close>.
\<close>

definition tjunc_env_none :: tjunc_env where
  "tjunc_env_none = \<lparr>env_tjunc = NONE, env_maxedges = 8, env_on_epsilon = 1 / 10,
     env_dvertexes = edge_points, env_FindEdgeVerts = (\<lambda>_ _. []),
     env_triangulate = (\<lambda>_ _. []), env_compress_triangles_into_fans = (\<lambda>_ _. []),
     env_RetopologizeFace = (\<lambda>_ _. [])\<rparr>"


text \<open>A plane type for planes whose dominant axis is z (\<open>PLANE_ANYZ = 5\<close>, axis \<open>5 mod 3\<close>).\<close>

definition type_anyz :: "mapplane_t \<Rightarrow> nat" where
  "type_anyz p = 5"

text \<open>
  A store with an interior node 0, whose children are the nodes 1 and 2, and one
  allocated portal; \<open>split_store\<close> has the portal between the nodes 0 and 3.  The clip of
  the example yields both fragments and no winding is tiny.
\<close>

definition split_empty :: "(unit, nat) store" where
  "split_empty =
     \<lparr>node_mem = (\<lambda>n. \<lparr>node_planenum = (if n = 0 then 0 else - 1),
                          children = (\<lambda>s. if n = 0 then (if s = SIDE_FRONT then Some 1 else Some 2)
                                          else None),
                          contents = (), portals = None\<rparr>),
      portal_mem = (\<lambda>p. \<lparr>planenum = 0, onnode = None, nodes = (\<lambda>_. None),
                          next = (\<lambda>_. None), winding = Some 7\<rparr>),
      portal_brk = 1\<rparr>"

definition split_store :: "(unit, nat) store" where
  "split_store = (case AddPortalToNodes split_empty 0 0 3 of Inr h \<Rightarrow> h | Inl e \<Rightarrow> split_empty)"

definition split_planes :: "mapplane_t list" where
  "split_planes = [mapplane \<lparr>normal = (0, 0, 1), dist = 0\<rparr>]"

definition clip_both :: "nat \<Rightarrow> mapplane_t \<Rightarrow> vec_t \<Rightarrow> bool \<Rightarrow> nat option \<times> nat option" where
  "clip_both wnd plane eps keepon = (Some (2 * wnd), Some (2 * wnd + 1))"

definition never_tiny :: "nat \<Rightarrow> bool" where
  "never_tiny wnd = False"

text \<open>
  A clip that leaves the whole winding in front of the plane, and the fields of portal
  0 and of node 0 after a call, with the counter.
\<close>

definition clip_front :: "nat \<Rightarrow> mapplane_t \<Rightarrow> vec_t \<Rightarrow> bool \<Rightarrow> nat option \<times> nat option" where
  "clip_front wnd plane eps keepon = (Some wnd, None)"

definition split_view ::
  "(error + ('c, 'w) store \<times> portalstats_t) option
     \<Rightarrow> (error + nat \<times> nat option \<times> nat option \<times> 'w option \<times> nat option) option" where
  "split_view r =
     map_option (map_sum id (\<lambda>(h, stats).
       (c_tinyportals stats, nodes (portal_mem h 0) SIDE_FRONT, nodes (portal_mem h 0) SIDE_BACK,
        winding (portal_mem h 0), portals (node_mem h 0)))) r"

text \<open>
  The repair level \<open>ROTATE\<close> with no candidate vertices, a triangle, and a face with a
  repeated vertex, whose superface collapses.
\<close>

definition tjunc_env_rotate :: tjunc_env where
  "tjunc_env_rotate = tjunc_env_none\<lparr>env_tjunc := ROTATE\<rparr>"

definition tjunc_face3 :: tjunc_face_t where
  "tjunc_face3 = \<lparr>original_vertices = [0, 1, 2], fragments = []\<rparr>"

definition tjunc_face_deg :: tjunc_face_t where
  "tjunc_face_deg = \<lparr>original_vertices = [4, 4, 5], fragments = []\<rparr>"

section \<open>Results\<close>

subsection \<open>Portal_EntityFlood\<close>

text \<open>
  C8.  For a portal whose two endpoints are set, \<open>Portal_EntityFlood\<close> ends in the fatal
  error exactly when one of the two endpoint nodes is not a leaf; when both are leaves
  it returns false exactly when one of the two leaves is solid, and true otherwise; the
  side argument has no influence on the outcome.
\<close>

theorem Portal_EntityFlood_spec:
  assumes "nodes (portal_mem h p) SIDE_FRONT = Some n0"
    and "nodes (portal_mem h p) SIDE_BACK = Some n1"
  shows "((\<exists>e. Portal_EntityFlood LEAF solid h p s = Inl e) \<longleftrightarrow>
            (node_planenum (node_mem h n0) \<noteq> LEAF \<or> node_planenum (node_mem h n1) \<noteq> LEAF))
       \<and> ((\<exists>e. Portal_EntityFlood LEAF solid h p s = Inl e) \<longleftrightarrow>
            Portal_EntityFlood LEAF solid h p s = Inl (FError ''Portal_EntityFlood: not a leaf''))
       \<and> (node_planenum (node_mem h n0) = LEAF \<and> node_planenum (node_mem h n1) = LEAF \<longrightarrow>
            Portal_EntityFlood LEAF solid h p s =
              Inr (\<not> (solid (contents (node_mem h n0)) \<or> solid (contents (node_mem h n1)))))
       \<and> Portal_EntityFlood LEAF solid h p s = Portal_EntityFlood LEAF solid h p s'"
  using assms by (auto simp: Portal_EntityFlood_def)

theorem Portal_EntityFlood_spec_witness:
  "nodes (portal_mem flood_store 0) SIDE_FRONT = Some 0
   \<and> nodes (portal_mem flood_store 0) SIDE_BACK = Some 1
   \<and> Portal_EntityFlood (- 1) (\<lambda>c. c) flood_store 0 0 = Inr False
   \<and> Portal_EntityFlood (- 1) (\<lambda>c. c) flood_store 0 1 = Inr False
   \<and> Portal_EntityFlood (- 1) (\<lambda>c. c) flood_store 1 0 =
       Inl (FError ''Portal_EntityFlood: not a leaf'')"
  using Portal_EntityFlood_spec [of flood_store 0 0 1 "- 1" "\<lambda>c. c" 0 1]
    Portal_EntityFlood_spec [of flood_store 1 0 2 "- 1" "\<lambda>c. c" 0 1]
  by (simp add: flood_store_def Portal_EntityFlood_def)

subsection \<open>TryMerge\<close>

lemma first_some_SomeD:
  "first_some f xs = Some (x, y) \<Longrightarrow> x \<in> set xs \<and> f x = Some y"
  by (induction xs) (auto split: option.splits)

lemma find_common_edge_SomeD:
  assumes "find_common_edge eps w1 w2 = Some (i, j)"
  shows "i < length w1 \<and> j < length w2
     \<and> edge_matches eps (w1 ! i) (w1 ! ((i + 1) mod length w1)) (w2 ! j) (w2 ! ((j + 1) mod length w2))"
proof -
  from first_some_SomeD [OF assms [unfolded find_common_edge_def]]
  have i: "i < length w1"
    and f: "find (\<lambda>j. edge_matches eps (w1 ! i) (w1 ! ((i + 1) mod length w1)) (w2 ! j)
                (w2 ! ((j + 1) mod length w2))) [0..<length w2] = Some j"
    by (simp_all add: Let_def)
  from f have "j < length w2 \<and> edge_matches eps (w1 ! i) (w1 ! ((i + 1) mod length w1)) (w2 ! j)
                (w2 ! ((j + 1) mod length w2))"
    by (auto simp: find_Some_iff)
  with i show ?thesis by simp
qed

lemma length_copy_winding:
  "length (copy_winding wnd k i acc) \<le>
     length acc + (if k < length wnd \<and> i < length wnd then (i + length wnd - k) mod length wnd else 0)"
proof (induction wnd k i acc rule: copy_winding.induct)
  case (1 wnd k i acc)
  show ?case
  proof (cases "k \<noteq> i \<and> k < length wnd \<and> i < length wnd")
    case True
    then have "0 < length wnd" by auto
    then have k1: "Suc k mod length wnd < length wnd" by simp
    from True have "(i + length wnd - Suc k mod length wnd) mod length wnd
        < (i + length wnd - k) mod length wnd"
      by (intro copy_winding_step) simp_all
    with "1.IH" [OF True] k1 True show ?thesis
      by (subst copy_winding.simps) simp
  next
    case False
    then show ?thesis by (subst copy_winding.simps) auto
  qed
qed

lemma length_copy_winding_le:
  assumes "wnd \<noteq> []"
  shows "length (copy_winding wnd k i acc) + 1 \<le> length acc + length wnd"
proof -
  define r where "r = (i + length wnd - k) mod length wnd"
  have b: "r < length wnd" using assms by (simp add: r_def)
  have "length (copy_winding wnd k i acc) \<le> length acc + r
      \<or> length (copy_winding wnd k i acc) \<le> length acc"
    using length_copy_winding [of wnd k i acc] by (simp add: r_def split: if_splits)
  with b show ?thesis by arith
qed

lemma TryMerge_result:
  "TryMerge EQ CE MAXEDGES planes f1 f2 = Inr None
   \<or> (\<exists>f. TryMerge EQ CE MAXEDGES planes f1 f2 = Inr (Some f))
   \<or> (TryMerge EQ CE MAXEDGES planes f1 f2 = Inl Undefined \<and> length planes \<le> face_planenum f1)"
  by (simp add: TryMerge_def Let_def split: option.splits prod.splits)

text \<open>
  C3 (as stated).  \<open>TryMerge\<close> does not compare plane numbers: the two squares merge
  although the first has plane number 0 and the second plane number 2.
\<close>

theorem TryMerge_ignores_planenum:
  "TryMerge (1 / 10000) (1 / 1000) 64 merge_planes merge_left (merge_right 2) =
     Inr (Some \<lparr>w = [(0, 1, 0), (0, 0, 0), (2, 0, 0), (2, 1, 0)], face_planenum = 0,
       planeside = False, texinfo = 3, face_contents = (), lmshift = 4\<rparr>)
   \<and> face_planenum merge_left \<noteq> face_planenum (merge_right 2)"
  by (simp add: TryMerge_def Let_def find_common_edge_def edge_matches_def merge_planes_def
      merge_left_def merge_right_def NewFaceFromFace_def qv_normalize_def qv_length_def
      copy_winding.simps upt_rec)

text \<open>
  C3 (amended).  \<open>TryMerge\<close> returns a merged face only if the two faces have the same
  planeside, texinfo, contents and lmshift, share an edge (an edge of the first and an
  edge of the second with the same two endpoints in opposite order, every coordinate
  within \<open>EQUAL_EPSILON\<close>), and their vertex counts add up to at most \<open>MAXEDGES\<close>; the
  merged polygon then has at least two vertices fewer than that sum, hence at most
  \<open>MAXEDGES\<close>.  In every other case the result is \<open>NULL\<close>, unless the plane number of
  the first face is outside the registry.  The plane numbers are not compared.
\<close>

theorem TryMerge_only_if:
  "(TryMerge EQ CE MAXEDGES planes f1 f2 = Inr (Some newf) \<longrightarrow>
      planeside f1 = planeside f2 \<and> texinfo f1 = texinfo f2
      \<and> face_contents f1 = face_contents f2 \<and> lmshift f1 = lmshift f2
      \<and> (\<exists>i j. i < length (w f1) \<and> j < length (w f2)
             \<and> edge_matches EQ (w f1 ! i) (w f1 ! ((i + 1) mod length (w f1)))
                   (w f2 ! j) (w f2 ! ((j + 1) mod length (w f2))))
      \<and> length (w f1) + length (w f2) \<le> MAXEDGES
      \<and> length (w newf) + 2 \<le> length (w f1) + length (w f2)
      \<and> length (w newf) \<le> MAXEDGES)
   \<and> (TryMerge EQ CE MAXEDGES planes f1 f2 = Inr None
        \<or> (\<exists>f. TryMerge EQ CE MAXEDGES planes f1 f2 = Inr (Some f))
        \<or> (TryMerge EQ CE MAXEDGES planes f1 f2 = Inl Undefined
             \<and> length planes \<le> face_planenum f1))"
  (is "(?merged \<longrightarrow> ?conds) \<and> ?total")
proof (rule conjI)
  show "?merged \<longrightarrow> ?conds"
  proof (rule impI)
    assume assms: ?merged
    from assms have ne: "w f1 \<noteq> []" "w f2 \<noteq> []"
      and attrs: "planeside f1 = planeside f2" "texinfo f1 = texinfo f2"
        "face_contents f1 = face_contents f2" "lmshift f1 = lmshift f2"
      by (auto simp: TryMerge_def Let_def split: if_splits)
    from assms ne attrs obtain i j where ij: "find_common_edge EQ (w f1) (w f2) = Some (i, j)"
      by (cases "find_common_edge EQ (w f1) (w f2)") (auto simp: TryMerge_def Let_def)
    from assms ne attrs ij have mx: "length (w f1) + length (w f2) \<le> MAXEDGES"
      by (auto simp: TryMerge_def Let_def split: if_splits)
    from assms ne attrs ij obtain k l where
      nw: "w newf = copy_winding (w f2) l j (copy_winding (w f1) k i [])"
      by (auto simp: TryMerge_def Let_def NewFaceFromFace_def split: if_splits)
    from length_copy_winding_le [OF ne(1), of k i "[]"]
      length_copy_winding_le [OF ne(2), of l j "copy_winding (w f1) k i []"]
    have len: "length (w newf) + 2 \<le> length (w f1) + length (w f2)"
      unfolding nw by simp
    from find_common_edge_SomeD [OF ij] attrs mx len show ?conds by auto
  qed
  show ?total by (rule TryMerge_result)
qed

lemma TryMerge_example:
  "TryMerge (1 / 10000) (1 / 1000) 64 merge_planes merge_left (merge_right 0) =
     Inr (Some \<lparr>w = [(0, 1, 0), (0, 0, 0), (2, 0, 0), (2, 1, 0)], face_planenum = 0,
       planeside = False, texinfo = 3, face_contents = (), lmshift = 4\<rparr>)"
  by (simp add: TryMerge_def Let_def find_common_edge_def edge_matches_def merge_planes_def
      merge_left_def merge_right_def NewFaceFromFace_def qv_normalize_def qv_length_def
      copy_winding.simps upt_rec)

theorem TryMerge_only_if_witness:
  "TryMerge (1 / 10000) (1 / 1000) 64 merge_planes merge_left (merge_right 0) =
     Inr (Some \<lparr>w = [(0, 1, 0), (0, 0, 0), (2, 0, 0), (2, 1, 0)], face_planenum = 0,
       planeside = False, texinfo = 3, face_contents = (), lmshift = 4\<rparr>)
   \<and> planeside merge_left = planeside (merge_right 0)
   \<and> texinfo merge_left = texinfo (merge_right 0)
   \<and> face_contents merge_left = face_contents (merge_right 0)
   \<and> lmshift merge_left = lmshift (merge_right 0)
   \<and> (\<exists>i j. i < length (w merge_left) \<and> j < length (w (merge_right 0))
          \<and> edge_matches (1 / 10000) (w merge_left ! i)
                (w merge_left ! ((i + 1) mod length (w merge_left)))
                (w (merge_right 0) ! j)
                (w (merge_right 0) ! ((j + 1) mod length (w (merge_right 0)))))
   \<and> length (w merge_left) + length (w (merge_right 0)) \<le> (64 :: nat)"
  using TryMerge_only_if [of "1 / 10000" "1 / 1000" 64 merge_planes merge_left "merge_right 0"
      "\<lparr>w = [(0, 1, 0), (0, 0, 0), (2, 0, 0), (2, 1, 0)], face_planenum = 0,
       planeside = False, texinfo = 3, face_contents = (), lmshift = 4\<rparr>"]
    TryMerge_example
  by simp

subsection \<open>TestEdge\<close>

lemma TestEdge_appends:
  "p1 \<noteq> p2 \<Longrightarrow>
     \<exists>xs. TestEdge eps dv s e p1 p2 startvert edge_verts es ed superface stats =
            (superface @ p1 # xs, stats\<lparr>tjunctions := tjunctions stats + length xs\<rparr>)
        \<and> set xs \<subseteq> set (drop startvert edge_verts)"
proof (induction eps dv s e p1 p2 startvert edge_verts es ed superface stats rule: TestEdge.induct)
  case (1 eps dv s e p1 p2 startvert edge_verts es ed superface stats)
  show ?case
  proof (cases "TestEdge_scan eps dv s e p1 p2 edge_verts es ed startvert")
    case None
    with "1.prems" show ?thesis
      by (subst TestEdge.simps) simp
  next
    case (Some kd)
    obtain k d where kd: "kd = (k, d)" by (cases kd)
    let ?j = "edge_verts ! k"
    let ?st1 = "stats\<lparr>tjunctions := tjunctions stats + 1\<rparr>"
    from Some kd have scan: "TestEdge_scan eps dv s e p1 p2 edge_verts es ed startvert = Some (k, d)"
      by simp
    from TestEdge_scan_bounds [OF scan]
    have b: "startvert \<le> k" "k < length edge_verts" "?j \<noteq> p1" "?j \<noteq> p2" by auto
    from b have p1j: "p1 \<noteq> ?j" by simp
    from "1.IH"(1) [OF "1.prems" scan refl refl refl p1j]
    obtain xs1 where r1: "TestEdge eps dv s d p1 ?j (k + 1) edge_verts es ed superface ?st1 =
        (superface @ p1 # xs1, ?st1\<lparr>tjunctions := tjunctions ?st1 + length xs1\<rparr>)"
      and s1: "set xs1 \<subseteq> set (drop (k + 1) edge_verts)" by blast
    from "1.IH"(2) [OF "1.prems" scan refl refl refl r1 [symmetric] refl b(4)]
    obtain xs2 where r2: "TestEdge eps dv d e ?j p2 (k + 1) edge_verts es ed (superface @ p1 # xs1)
          (?st1\<lparr>tjunctions := tjunctions ?st1 + length xs1\<rparr>) =
        ((superface @ p1 # xs1) @ ?j # xs2,
         ?st1\<lparr>tjunctions := tjunctions ?st1 + length xs1,
               tjunctions := tjunctions (?st1\<lparr>tjunctions := tjunctions ?st1 + length xs1\<rparr>) + length xs2\<rparr>)"
      and s2: "set xs2 \<subseteq> set (drop (k + 1) edge_verts)" by auto
    have sub: "set (drop (k + 1) edge_verts) \<subseteq> set (drop startvert edge_verts)"
      using b(1) by (intro set_drop_subset_set_drop) simp
    have "drop startvert edge_verts ! (k - startvert) = ?j"
      using b(1,2) by simp
    moreover have "k - startvert < length (drop startvert edge_verts)"
      using b(1,2) by simp
    ultimately have jin: "?j \<in> set (drop startvert edge_verts)"
      using nth_mem by metis
    have "TestEdge eps dv s e p1 p2 startvert edge_verts es ed superface stats =
        (superface @ p1 # (xs1 @ ?j # xs2),
         stats\<lparr>tjunctions := tjunctions stats + length (xs1 @ ?j # xs2)\<rparr>)"
      using "1.prems" scan r1 r2 by (subst TestEdge.simps) (simp add: Let_def)
    moreover have "set (xs1 @ ?j # xs2) \<subseteq> set (drop startvert edge_verts)"
      using s1 s2 sub jin by auto
    ultimately show ?thesis by blast
  qed
qed


lemma TestEdge_scan_example:
  "TestEdge_scan (1 / 10) edge_points 0 2 0 1 [0, 2, 1] (0, 0, 0) (1, 0, 0) 0 = Some (1, 1)"
  by (simp add: TestEdge_scan.simps PointOnEdge_def qv_length_def Let_def edge_points_def)

lemma TestEdge_example_back:
  "TestEdge (1 / 10) edge_points 1 2 2 1 2 [0, 2, 1] (0, 0, 0) (1, 0, 0) sf st = (sf @ [2], st)"
  by (simp add: TestEdge.simps TestEdge_scan.simps PointOnEdge_def qv_length_def Let_def
      edge_points_def)

lemma TestEdge_example:
  "TestEdge (1 / 10) edge_points 0 2 0 1 0 [0, 2, 1] (0, 0, 0) (1, 0, 0) [] tjunc_stats_zero =
     ([0, 2], tjunc_stats_zero\<lparr>tjunctions := 1\<rparr>)"
  apply (subst TestEdge.simps)
  apply (simp only: TestEdge_scan_example)
  apply (simp add: Let_def TestEdge_example_back)
  apply (simp add: TestEdge.simps TestEdge_scan.simps PointOnEdge_def qv_length_def Let_def
      edge_points_def)
  apply (simp add: tjunc_stats_zero_def)
  done

text \<open>
  C6.  \<open>TestEdge\<close> is a total function: its recursion is well-founded because a
  vertex found at candidate index \<open>k\<close> satisfies \<open>startvert \<le> k < length edge_verts\<close> and
  both recursive calls start at \<open>k + 1\<close>.  A degenerate call (\<open>p1 = p2\<close>) appends nothing
  and increments the degenerate counter; a call that finds no interior vertex appends
  exactly \<open>p1\<close>; a call that finds one is the sequence of the two recursive calls after
  the tjunction counter is incremented.  Altogether a non-degenerate call appends \<open>p1\<close>
  followed by the interior vertices it found, one per counted tjunction.
\<close>

theorem TestEdge_total:
  "(p1 = p2 \<longrightarrow>
      TestEdge eps dv s e p1 p2 startvert edge_verts es ed superface stats =
        (superface, stats\<lparr>degenerate := degenerate stats + 1\<rparr>))
   \<and> (p1 \<noteq> p2 \<longrightarrow> TestEdge_scan eps dv s e p1 p2 edge_verts es ed startvert = None \<longrightarrow>
      TestEdge eps dv s e p1 p2 startvert edge_verts es ed superface stats =
        (superface @ [p1], stats))
   \<and> (p1 \<noteq> p2 \<longrightarrow> TestEdge_scan eps dv s e p1 p2 edge_verts es ed startvert = Some (k, d) \<longrightarrow>
      startvert < k + 1 \<and> k + 1 \<le> length edge_verts
      \<and> length edge_verts - (k + 1) < length edge_verts - startvert
      \<and> TestEdge eps dv s e p1 p2 startvert edge_verts es ed superface stats =
          (case TestEdge eps dv s d p1 (edge_verts ! k) (k + 1) edge_verts es ed superface
                  (stats\<lparr>tjunctions := tjunctions stats + 1\<rparr>) of
             (superface1, stats2) \<Rightarrow>
               TestEdge eps dv d e (edge_verts ! k) p2 (k + 1) edge_verts es ed superface1 stats2))
   \<and> (p1 \<noteq> p2 \<longrightarrow>
      (\<exists>xs. TestEdge eps dv s e p1 p2 startvert edge_verts es ed superface stats =
             (superface @ p1 # xs, stats\<lparr>tjunctions := tjunctions stats + length xs\<rparr>)
         \<and> set xs \<subseteq> set (drop startvert edge_verts)))"
proof (intro conjI impI)
  assume "p1 = p2"
  then show "TestEdge eps dv s e p1 p2 startvert edge_verts es ed superface stats =
      (superface, stats\<lparr>degenerate := degenerate stats + 1\<rparr>)"
    by (subst TestEdge.simps) simp
next
  assume "p1 \<noteq> p2" "TestEdge_scan eps dv s e p1 p2 edge_verts es ed startvert = None"
  then show "TestEdge eps dv s e p1 p2 startvert edge_verts es ed superface stats =
      (superface @ [p1], stats)"
    by (subst TestEdge.simps) simp
next
  assume a: "p1 \<noteq> p2" "TestEdge_scan eps dv s e p1 p2 edge_verts es ed startvert = Some (k, d)"
  from TestEdge_scan_bounds [OF a(2)] show "startvert < k + 1" by simp
  from TestEdge_scan_bounds [OF a(2)] show "k + 1 \<le> length edge_verts" by simp
  from TestEdge_scan_bounds [OF a(2)]
  show "length edge_verts - (k + 1) < length edge_verts - startvert" by auto
  from a show "TestEdge eps dv s e p1 p2 startvert edge_verts es ed superface stats =
      (case TestEdge eps dv s d p1 (edge_verts ! k) (k + 1) edge_verts es ed superface
              (stats\<lparr>tjunctions := tjunctions stats + 1\<rparr>) of
         (superface1, stats2) \<Rightarrow>
           TestEdge eps dv d e (edge_verts ! k) p2 (k + 1) edge_verts es ed superface1 stats2)"
    by (subst TestEdge.simps) (simp add: Let_def)
next
  assume "p1 \<noteq> p2"
  then show "\<exists>xs. TestEdge eps dv s e p1 p2 startvert edge_verts es ed superface stats =
         (superface @ p1 # xs, stats\<lparr>tjunctions := tjunctions stats + length xs\<rparr>)
       \<and> set xs \<subseteq> set (drop startvert edge_verts)"
    by (rule TestEdge_appends)
qed

theorem TestEdge_total_witness:
  "(0 :: nat) \<noteq> 1
   \<and> TestEdge_scan (1 / 10) edge_points 0 2 0 1 [0, 2, 1] (0, 0, 0) (1, 0, 0) 0 = Some (1, 1)
   \<and> TestEdge (1 / 10) edge_points 0 2 0 1 0 [0, 2, 1] (0, 0, 0) (1, 0, 0) [] tjunc_stats_zero =
       ([0, 2], tjunc_stats_zero\<lparr>tjunctions := 1\<rparr>)
   \<and> TestEdge (1 / 10) edge_points 0 2 1 1 0 [0, 2, 1] (0, 0, 0) (1, 0, 0) [] tjunc_stats_zero =
       ([], tjunc_stats_zero\<lparr>degenerate := 1\<rparr>)"
  using TestEdge_total [of 0 1 "1 / 10" edge_points 0 2 0 "[0, 2, 1]" "(0, 0, 0)" "(1, 0, 0)" "[]"
      tjunc_stats_zero 1 1]
    TestEdge_total [of 1 1 "1 / 10" edge_points 0 2 0 "[0, 2, 1]" "(0, 0, 0)" "(1, 0, 0)" "[]"
      tjunc_stats_zero 1 1]
    TestEdge_scan_example TestEdge_example
  by (simp add: tjunc_stats_zero_def)

subsection \<open>Fragmentation\<close>












text \<open>
  The loop over \<open>faces\<close> visits the first polygon only: the splice at the end of
  \<open>SplitFaceIntoFragments\<close> moves the current (first) element to the end of the list, and
  the increment of the iterator then reaches the end.  A second polygon is stored as it
  is, here with four vertices although \<open>maxedges = 3\<close>.
\<close>

lemma FixFaceEdges_split_first_only:
  "FixFaceEdges_split 3 [[10, 11, 12], [20, 21, 22, 23]] 0 st = Some (Inr ([[20, 21, 22, 23], [10, 11, 12]], st))"
proof -
  have w: "SplitFaceIntoFragments_while 3 [[10, 11, 12], [20, 21, 22, 23]] 0 st =
      Some ([[10, 11, 12], [20, 21, 22, 23]], st)"
    by (subst SplitFaceIntoFragments_while.simps) (simp add: Let_def)
  have e: "FixFaceEdges_split 3 [[20, 21, 22, 23], [10, 11, 12]] (Suc (Suc 0)) st =
      Some (Inr ([[20, 21, 22, 23], [10, 11, 12]], st))"
    by (subst FixFaceEdges_split.simps) simp
  show ?thesis
    by (subst FixFaceEdges_split.simps) (simp add: SplitFaceIntoFragments_def w e Let_def)
qed





subsection \<open>Plane registry\<close>

text \<open>
  C4 (as stated).  The returned id is not always the id of the positive orientation:
  for a plane facing down the z axis (dominant axis 2, component \<open>-1\<close>) added to the
  empty registry, the positive orientation is stored at id 0, and the call returns id
  1, the id of the plane as it was given, whose dominant component is negative.
\<close>

theorem add_plane_returns_given_orientation:
  "snd (add_plane type_anyz [] \<lparr>normal = (0, 0, - 1), dist = 5\<rparr>) = 1
   \<and> qv_at (normal (fst (add_plane type_anyz [] \<lparr>normal = (0, 0, - 1), dist = 5\<rparr>) ! 1)) 2 < 0
   \<and> 0 \<le> qv_at (normal (fst (add_plane type_anyz [] \<lparr>normal = (0, 0, - 1), dist = 5\<rparr>) ! 0)) 2"
  by (simp add: add_plane_def Let_def mapplane_def qplane_neg_def type_anyz_def)

text \<open>
  C4 (amended).  On a registry of even size \<open>n\<close>, \<open>add_plane\<close> keeps the old entries
  and appends two: the entries at \<open>n\<close> and \<open>n + 1 = n XOR 1\<close> are each other's negation,
  the entry at the even id \<open>n\<close> has a non-negative component along the dominant axis
  of the plane added, and the returned id is the id under which the given plane itself
  is stored: \<open>n\<close> when its dominant component is non-negative, \<open>n + 1\<close> when it is
  negative.
\<close>

theorem add_plane_pair:
  assumes "even (length planes)"
  shows "(let (planes', ident) = add_plane get_type planes plane; n = length planes in
           length planes' = n + 2 \<and> take n planes' = planes
         \<and> n XOR 1 = n + 1 \<and> (n + 1) XOR 1 = n
         \<and> plane_of (planes' ! (n XOR 1)) = qplane_neg (plane_of (planes' ! n))
         \<and> plane_of (planes' ! ((n + 1) XOR 1)) = qplane_neg (plane_of (planes' ! (n + 1)))
         \<and> 0 \<le> qv_at (normal (planes' ! n)) (get_type (mapplane plane) mod 3)
         \<and> plane_of (planes' ! ident) = plane
         \<and> ident = (if qv_at (normal plane) (get_type (mapplane plane) mod 3) < 0 then n + 1 else n))"
proof -
  have x: "length planes XOR Suc 0 = Suc (length planes)"
    using assms xor_one_eq [of "length planes"] by simp
  have y: "Suc (length planes) XOR Suc 0 = length planes"
    using assms xor_one_eq [of "Suc (length planes)"] by simp
  obtain a b c where n: "normal plane = (a, b, c)" by (cases "normal plane")
  show ?thesis
    using x y n
    by (cases plane) (auto simp: add_plane_def Let_def mapplane_def plane_of_def qplane_neg_def nth_append)
qed

theorem add_plane_pair_witness:
  "even (length ([] :: mapplane_t list))
   \<and> add_plane type_anyz [] \<lparr>normal = (0, 0, - 1), dist = 5\<rparr> =
       ([\<lparr>normal = (0, 0, 1), dist = - 5, outputnum = None\<rparr>,
         \<lparr>normal = (0, 0, - 1), dist = 5, outputnum = None\<rparr>], 1)
   \<and> add_plane type_anyz [] \<lparr>normal = (0, 0, 1), dist = 5\<rparr> =
       ([\<lparr>normal = (0, 0, 1), dist = 5, outputnum = None\<rparr>,
         \<lparr>normal = (0, 0, - 1), dist = - 5, outputnum = None\<rparr>], 0)"
  using add_plane_pair [of "[]" type_anyz "\<lparr>normal = (0, 0, - 1), dist = 5\<rparr>"]
  by (simp add: add_plane_def Let_def mapplane_def qplane_neg_def type_anyz_def)

subsection \<open>Vertex hashing\<close>

lemma fold_push_front:
  assumes step: "\<And>k m h. g k m h = (if P k h then Some (hv # bucket_of m h) else m h)"
    and disj: "\<And>k k' h. P k h \<Longrightarrow> P k' h \<Longrightarrow> k = k'"
    and "distinct ks"
  shows "fold g ks m h = (if \<exists>k\<in>set ks. P k h then Some (hv # bucket_of m h) else m h)"
  using assms(3)
proof (induction ks arbitrary: m)
  case Nil
  then show ?case by simp
next
  case (Cons k ks)
  have b: "\<not> P k h \<Longrightarrow> bucket_of (g k m) h = bucket_of m h"
    by (simp add: bucket_of_def step)
  show ?case
  proof (cases "\<exists>k'\<in>set ks. P k' h")
    case True
    then obtain k' where k': "k' \<in> set ks" "P k' h" by blast
    with Cons.prems have "k' \<noteq> k" by auto
    with k' disj [of k h k'] have "\<not> P k h" by blast
    with True Cons show ?thesis by (simp add: b)
  next
    case False
    with Cons show ?thesis by (simp add: step)
  qed
qed

lemma push_front_bucket_apply:
  "push_front_bucket m k hv h = (if k = h then Some (hv # bucket_of m h) else m h)"
  by (simp add: push_front_bucket_def)

lemma add_hash_vector_buckets:
  "add_hash_vector m (px, py, pz) n h =
     (if fst h - \<lfloor>px\<rfloor> \<in> {- 1, 0, 1} \<and> fst (snd h) - \<lfloor>py\<rfloor> \<in> {- 1, 0, 1}
         \<and> snd (snd h) - \<lfloor>pz\<rfloor> \<in> {- 1, 0, 1}
      then Some (\<lparr>point = (px, py, pz), num = n\<rparr> # bucket_of m h) else m h)"
proof -
  let ?hv = "\<lparr>point = (px, py, pz), num = n\<rparr>"
  let ?ds = "[- 1, 0, 1 :: int]"
  have d: "distinct ?ds" by simp
  have inner: "fold (\<lambda>z m. push_front_bucket m (a, b, \<lfloor>pz\<rfloor> + z) ?hv) ?ds m h =
      (if \<exists>z\<in>set ?ds. (a, b, \<lfloor>pz\<rfloor> + z) = h then Some (?hv # bucket_of m h) else m h)"
    for a b m h
    by (rule fold_push_front [where P = "\<lambda>z h. (a, b, \<lfloor>pz\<rfloor> + z) = h", OF _ _ d])
      (auto simp: push_front_bucket_apply)
  have middle: "fold (\<lambda>y m. fold (\<lambda>z m.
        push_front_bucket m (a, \<lfloor>py\<rfloor> + y, \<lfloor>pz\<rfloor> + z) ?hv) ?ds m) ?ds m h =
      (if \<exists>y\<in>set ?ds. \<exists>z\<in>set ?ds. (a, \<lfloor>py\<rfloor> + y, \<lfloor>pz\<rfloor> + z) = h
       then Some (?hv # bucket_of m h) else m h)"
    for a m h
    by (rule fold_push_front
          [where P = "\<lambda>y h. \<exists>z\<in>set ?ds. (a, \<lfloor>py\<rfloor> + y, \<lfloor>pz\<rfloor> + z) = h", OF _ _ d])
      (auto simp only: inner)
  have outer: "add_hash_vector m (px, py, pz) n h =
      (if \<exists>x\<in>set ?ds. \<exists>y\<in>set ?ds. \<exists>z\<in>set ?ds. (\<lfloor>px\<rfloor> + x, \<lfloor>py\<rfloor> + y, \<lfloor>pz\<rfloor> + z) = h
       then Some (?hv # bucket_of m h) else m h)"
    unfolding add_hash_vector.simps
    by (rule fold_push_front
          [where P = "\<lambda>x h. \<exists>y\<in>set ?ds. \<exists>z\<in>set ?ds. (\<lfloor>px\<rfloor> + x, \<lfloor>py\<rfloor> + y, \<lfloor>pz\<rfloor> + z) = h",
            OF _ _ d])
      (auto simp only: middle)
  have eq: "(\<exists>x\<in>set ?ds. \<exists>y\<in>set ?ds. \<exists>z\<in>set ?ds. (\<lfloor>px\<rfloor> + x, \<lfloor>py\<rfloor> + y, \<lfloor>pz\<rfloor> + z) = h) \<longleftrightarrow>
     (fst h - \<lfloor>px\<rfloor> \<in> {- 1, 0, 1} \<and> fst (snd h) - \<lfloor>py\<rfloor> \<in> {- 1, 0, 1}
       \<and> snd (snd h) - \<lfloor>pz\<rfloor> \<in> {- 1, 0, 1})"
    by (cases h) (simp, safe, simp_all)
  show ?thesis unfolding outer eq ..
qed

lemma find_split:
  "find P xs = Some x \<longleftrightarrow> (\<exists>pre post. xs = pre @ x # post \<and> P x \<and> (\<forall>y\<in>set pre. \<not> P y))"
proof (induction xs)
  case Nil
  show ?case by simp
next
  case (Cons a xs)
  show ?case
  proof (cases "P a")
    case True
    show ?thesis
    proof
      assume "find P (a # xs) = Some x"
      with True have "x = a" by simp
      with True show "\<exists>pre post. a # xs = pre @ x # post \<and> P x \<and> (\<forall>y\<in>set pre. \<not> P y)"
        by (intro exI [of _ "[]"] exI [of _ xs]) simp
    next
      assume "\<exists>pre post. a # xs = pre @ x # post \<and> P x \<and> (\<forall>y\<in>set pre. \<not> P y)"
      then obtain pre post where e: "a # xs = pre @ x # post" and n: "\<forall>y\<in>set pre. \<not> P y" by blast
      from e n True have "pre = []" by (cases pre) auto
      with e True show "find P (a # xs) = Some x" by simp
    qed
  next
    case False
    have "(\<exists>pre post. a # xs = pre @ x # post \<and> P x \<and> (\<forall>y\<in>set pre. \<not> P y)) \<longleftrightarrow>
        (\<exists>pre post. xs = pre @ x # post \<and> P x \<and> (\<forall>y\<in>set pre. \<not> P y))"
    proof
      assume "\<exists>pre post. a # xs = pre @ x # post \<and> P x \<and> (\<forall>y\<in>set pre. \<not> P y)"
      then obtain pre post where e: "a # xs = pre @ x # post" and p: "P x"
        and n: "\<forall>y\<in>set pre. \<not> P y" by blast
      from e p False obtain pre' where "pre = a # pre'" by (cases pre) auto
      with e n p show "\<exists>pre post. xs = pre @ x # post \<and> P x \<and> (\<forall>y\<in>set pre. \<not> P y)" by auto
    next
      assume "\<exists>pre post. xs = pre @ x # post \<and> P x \<and> (\<forall>y\<in>set pre. \<not> P y)"
      then obtain pre post where e: "xs = pre @ x # post" and p: "P x"
        and n: "\<forall>y\<in>set pre. \<not> P y" by blast
      with False have "a # xs = (a # pre) @ x # post \<and> P x \<and> (\<forall>y\<in>set (a # pre). \<not> P y)" by simp
      then show "\<exists>pre post. a # xs = pre @ x # post \<and> P x \<and> (\<forall>y\<in>set pre. \<not> P y)" by blast
    qed
    with False Cons.IH show ?thesis by simp
  qed
qed

lemma find_emitted_first:
  "find_emitted_hash_vector eps m (qx, qy, qz) = Some k \<longleftrightarrow>
     (\<exists>pre hv post. m (\<lfloor>qx\<rfloor>, \<lfloor>qy\<rfloor>, \<lfloor>qz\<rfloor>) = Some (pre @ hv # post)
        \<and> (\<forall>x\<in>set pre. \<not> epsilonEqual (point x) (qx, qy, qz) eps)
        \<and> epsilonEqual (point hv) (qx, qy, qz) eps \<and> num hv = k)"
proof (cases "m (\<lfloor>qx\<rfloor>, \<lfloor>qy\<rfloor>, \<lfloor>qz\<rfloor>)")
  case None
  then show ?thesis by (simp add: find_emitted_hash_vector_def)
next
  case (Some bucket)
  let ?P = "\<lambda>hv. epsilonEqual (point hv) (qx, qy, qz) eps"
  have "find_emitted_hash_vector eps m (qx, qy, qz) = Some k \<longleftrightarrow>
      (\<exists>hv. find ?P bucket = Some hv \<and> num hv = k)"
    by (auto simp: find_emitted_hash_vector_def Some split: option.splits)
  also have "\<dots> \<longleftrightarrow> (\<exists>hv pre post. bucket = pre @ hv # post \<and> ?P hv \<and> (\<forall>y\<in>set pre. \<not> ?P y)
      \<and> num hv = k)"
    unfolding find_split by blast
  finally show ?thesis unfolding Some by auto
qed

lemma find_emitted_none:
  "find_emitted_hash_vector eps m (qx, qy, qz) = None \<longleftrightarrow>
     (\<forall>x\<in>set (bucket_of m (\<lfloor>qx\<rfloor>, \<lfloor>qy\<rfloor>, \<lfloor>qz\<rfloor>)). \<not> epsilonEqual (point x) (qx, qy, qz) eps)"
proof (cases "m (\<lfloor>qx\<rfloor>, \<lfloor>qy\<rfloor>, \<lfloor>qz\<rfloor>)")
  case None
  then show ?thesis by (simp add: find_emitted_hash_vector_def bucket_of_def)
next
  case (Some bucket)
  have "find_emitted_hash_vector eps m (qx, qy, qz) = None \<longleftrightarrow>
      find (\<lambda>hv. epsilonEqual (point hv) (qx, qy, qz) eps) bucket = None"
    by (simp add: find_emitted_hash_vector_def Some split: option.splits)
  then show ?thesis by (auto simp: bucket_of_def Some find_None_iff)
qed

text \<open>
  C9.  \<open>add_hash_vector\<close> puts the new entry at the front of each of the 27 buckets
  around the integer floor of the point and leaves every other bucket alone.  The
  lookup reads the bucket at the integer floor of the query and returns the number of
  the first entry within \<open>POINT_EQUAL_EPSILON\<close> of the query: it answers \<open>k\<close> exactly when
  the bucket is some \<open>pre @ hv # post\<close> with no entry of \<open>pre\<close> within the epsilon, \<open>hv\<close>
  within it and \<open>k\<close> the number of \<open>hv\<close>, and nothing exactly when no entry of the bucket
  is within the epsilon.  Hence, for a non-negative epsilon, the lookup of the point
  just inserted returns its number.
\<close>

theorem add_hash_vector_roundtrip:
  "add_hash_vector m (px, py, pz) n h =
     (if fst h - \<lfloor>px\<rfloor> \<in> {- 1, 0, 1} \<and> fst (snd h) - \<lfloor>py\<rfloor> \<in> {- 1, 0, 1}
         \<and> snd (snd h) - \<lfloor>pz\<rfloor> \<in> {- 1, 0, 1}
      then Some (\<lparr>point = (px, py, pz), num = n\<rparr> # bucket_of m h) else m h)
   \<and> (0 \<le> eps \<longrightarrow>
        find_emitted_hash_vector eps (add_hash_vector m (px, py, pz) n) (px, py, pz) = Some n)
   \<and> (find_emitted_hash_vector eps m' (qx, qy, qz) = Some k \<longleftrightarrow>
        (\<exists>pre hv post. m' (\<lfloor>qx\<rfloor>, \<lfloor>qy\<rfloor>, \<lfloor>qz\<rfloor>) = Some (pre @ hv # post)
           \<and> (\<forall>x\<in>set pre. \<not> epsilonEqual (point x) (qx, qy, qz) eps)
           \<and> epsilonEqual (point hv) (qx, qy, qz) eps \<and> num hv = k))
   \<and> (find_emitted_hash_vector eps m' (qx, qy, qz) = None \<longleftrightarrow>
        (\<forall>x\<in>set (bucket_of m' (\<lfloor>qx\<rfloor>, \<lfloor>qy\<rfloor>, \<lfloor>qz\<rfloor>)).
            \<not> epsilonEqual (point x) (qx, qy, qz) eps))"
proof (intro conjI impI)
  show "add_hash_vector m (px, py, pz) n h =
     (if fst h - \<lfloor>px\<rfloor> \<in> {- 1, 0, 1} \<and> fst (snd h) - \<lfloor>py\<rfloor> \<in> {- 1, 0, 1}
         \<and> snd (snd h) - \<lfloor>pz\<rfloor> \<in> {- 1, 0, 1}
      then Some (\<lparr>point = (px, py, pz), num = n\<rparr> # bucket_of m h) else m h)"
    by (rule add_hash_vector_buckets)
  have "add_hash_vector m (px, py, pz) n (\<lfloor>px\<rfloor>, \<lfloor>py\<rfloor>, \<lfloor>pz\<rfloor>) =
      Some (\<lparr>point = (px, py, pz), num = n\<rparr> # bucket_of m (\<lfloor>px\<rfloor>, \<lfloor>py\<rfloor>, \<lfloor>pz\<rfloor>))"
    by (simp add: add_hash_vector_buckets)
  then show "find_emitted_hash_vector eps (add_hash_vector m (px, py, pz) n) (px, py, pz) = Some n"
    if "0 \<le> eps"
    using that by (simp add: find_emitted_hash_vector_def)
  show "find_emitted_hash_vector eps m' (qx, qy, qz) = Some k \<longleftrightarrow>
        (\<exists>pre hv post. m' (\<lfloor>qx\<rfloor>, \<lfloor>qy\<rfloor>, \<lfloor>qz\<rfloor>) = Some (pre @ hv # post)
           \<and> (\<forall>x\<in>set pre. \<not> epsilonEqual (point x) (qx, qy, qz) eps)
           \<and> epsilonEqual (point hv) (qx, qy, qz) eps \<and> num hv = k)"
    by (rule find_emitted_first)
  show "find_emitted_hash_vector eps m' (qx, qy, qz) = None \<longleftrightarrow>
        (\<forall>x\<in>set (bucket_of m' (\<lfloor>qx\<rfloor>, \<lfloor>qy\<rfloor>, \<lfloor>qz\<rfloor>)).
            \<not> epsilonEqual (point x) (qx, qy, qz) eps)"
    by (rule find_emitted_none)
qed

theorem add_hash_vector_roundtrip_witness:
  "(0 :: real) \<le> 1 / 20
   \<and> find_emitted_hash_vector (1 / 20)
        (add_hash_vector (add_hash_vector Map.empty (1 / 2, 3 / 2, - 1 / 2) 3) (1 / 2, 3 / 2, - 1 / 2) 7)
        (1 / 2, 3 / 2, - 1 / 2) = Some 7
   \<and> find_emitted_hash_vector (1 / 20)
        (add_hash_vector (add_hash_vector Map.empty (1 / 2, 3 / 2, - 1 / 2) 3) (1 / 2, 3 / 2, - 1 / 2) 7)
        (13 / 10, 3 / 2, - 1 / 2) = None
   \<and> find_emitted_hash_vector (1 / 20)
        (add_hash_vector (add_hash_vector Map.empty (1 / 2, 3 / 2, - 1 / 2) 3) (13 / 10, 3 / 2, - 1 / 2) 7)
        (1 / 2, 3 / 2, - 1 / 2) = Some 3"
proof -
  let ?p = "(1 / 2, 3 / 2, - 1 / 2) :: qvec3d"
  let ?q = "(13 / 10, 3 / 2, - 1 / 2) :: qvec3d"
  let ?t = "add_hash_vector (add_hash_vector Map.empty ?p 3) ?p 7"
  let ?u = "add_hash_vector (add_hash_vector Map.empty ?p 3) ?q 7"
  have 1: "find_emitted_hash_vector (1 / 20) ?t ?p = Some 7"
    using add_hash_vector_roundtrip
      [of "add_hash_vector Map.empty ?p 3" "1 / 2" "3 / 2" "- 1 / 2" 7 _ "1 / 20"]
    by simp
  have b: "bucket_of ?t (1, 1, - 1) = [\<lparr>point = ?p, num = 7\<rparr>, \<lparr>point = ?p, num = 3\<rparr>]"
    by (simp add: bucket_of_def add_hash_vector_buckets)
  have 2: "find_emitted_hash_vector (1 / 20) ?t ?q = None"
    using add_hash_vector_roundtrip [where m' = ?t and qx = "13 / 10" and qy = "3 / 2"
        and qz = "- 1 / 2" and eps = "1 / 20", THEN conjunct2, THEN conjunct2, THEN conjunct2] b
    by simp
  have c: "?u (0, 1, - 1) = Some ([\<lparr>point = ?q, num = 7\<rparr>] @ \<lparr>point = ?p, num = 3\<rparr> # [])"
    by (simp add: bucket_of_def add_hash_vector_buckets)
  have ex: "\<exists>pre hv post. ?u (0, 1, - 1) = Some (pre @ hv # post)
      \<and> (\<forall>x\<in>set pre. \<not> epsilonEqual (point x) ?p (1 / 20))
      \<and> epsilonEqual (point hv) ?p (1 / 20) \<and> num hv = 3"
    by (rule exI [of _ "[\<lparr>point = ?q, num = 7\<rparr>]"], rule exI [of _ "\<lparr>point = ?p, num = 3\<rparr>"],
        rule exI [of _ "[]"]) (use c in simp)
  have "find_emitted_hash_vector (1 / 20) ?u ?p = Some 3 \<longleftrightarrow>
      (\<exists>pre hv post. ?u (0, 1, - 1) = Some (pre @ hv # post)
         \<and> (\<forall>x\<in>set pre. \<not> epsilonEqual (point x) ?p (1 / 20))
         \<and> epsilonEqual (point hv) ?p (1 / 20) \<and> num hv = 3)"
    using add_hash_vector_roundtrip [where m' = ?u and qx = "1 / 2" and qy = "3 / 2"
        and qz = "- 1 / 2" and eps = "1 / 20" and k = 3,
        THEN conjunct2, THEN conjunct2, THEN conjunct1]
    by simp
  with ex have 3: "find_emitted_hash_vector (1 / 20) ?u ?p = Some 3" by (simp only:)
  from 1 2 3 show ?thesis by simp
qed

subsection \<open>Portal construction\<close>

lemma upd_portal_simps [simp]:
  "portal_mem (upd_portal h p f) q = (if q = p then f (portal_mem h p) else portal_mem h q)"
  "node_mem (upd_portal h p f) = node_mem h"
  "portal_brk (upd_portal h p f) = portal_brk h"
  by (simp_all add: upd_portal_def)

lemma upd_node_simps [simp]:
  "node_mem (upd_node h n f) m = (if m = n then f (node_mem h n) else node_mem h m)"
  "portal_mem (upd_node h n f) = portal_mem h"
  "portal_brk (upd_node h n f) = portal_brk h"
  by (simp_all add: upd_node_def)

lemma seg_append: "seg h n x (xs @ ys) z = (\<exists>y. seg h n x xs y \<and> seg h n y ys z)"
  by (induction xs arbitrary: x) auto

lemma seg_functional: "seg h n x ps None \<Longrightarrow> seg h n x qs None \<Longrightarrow> ps = qs"
proof (induction ps arbitrary: x qs)
  case Nil
  then show ?case by (cases qs) auto
next
  case (Cons p ps)
  then show ?case by (cases qs) auto
qed

lemma seg_frame:
  assumes "\<And>p. p \<in> set ps \<Longrightarrow> attached h' p n = attached h p n \<and> succ_in h' n p = succ_in h n p"
  shows "seg h' n x ps y = seg h n x ps y"
  using assms by (induction ps arbitrary: x) auto

lemma seg_attached: "seg h n x ps y \<Longrightarrow> p \<in> set ps \<Longrightarrow> attached h p n"
  by (induction ps arbitrary: x) auto

lemma AddPortalToNodes_fields:
  assumes "AddPortalToNodes h p front back = Inr h'" and "front \<noteq> back"
  shows "nodes (portal_mem h p) SIDE_FRONT = None" "nodes (portal_mem h p) SIDE_BACK = None"
    and "\<And>q s. nodes (portal_mem h' q) s =
           (if q = p then Some (sel_side s front back) else nodes (portal_mem h q) s)"
    and "\<And>q s. next (portal_mem h' q) s =
           (if q = p then portals (node_mem h (sel_side s front back)) else next (portal_mem h q) s)"
    and "\<And>n. portals (node_mem h' n) =
           (if n = front \<or> n = back then Some p else portals (node_mem h n))"
    and "\<And>q. winding (portal_mem h' q) = winding (portal_mem h q)"
    and "\<And>q. planenum (portal_mem h' q) = planenum (portal_mem h q)"
    and "\<And>q. onnode (portal_mem h' q) = onnode (portal_mem h q)"
    and "\<And>n. children (node_mem h' n) = children (node_mem h n)"
    and "portal_brk h' = portal_brk h"
proof -
  from assms(1) show n0: "nodes (portal_mem h p) SIDE_FRONT = None"
    and n1: "nodes (portal_mem h p) SIDE_BACK = None"
    by (auto simp: AddPortalToNodes_def split: if_splits)
  from assms(1) n0 n1 have h': "h' =
      upd_node (upd_portal (upd_portal (upd_node (upd_portal (upd_portal h p
        (\<lambda>pt. pt\<lparr>nodes := (nodes pt)(SIDE_FRONT := Some front)\<rparr>)) p
        (\<lambda>pt. pt\<lparr>next := (next pt)(SIDE_FRONT := portals (node_mem h front))\<rparr>)) front
        (\<lambda>n. n\<lparr>portals := Some p\<rparr>)) p
        (\<lambda>pt. pt\<lparr>nodes := (nodes pt)(SIDE_BACK := Some back)\<rparr>)) p
        (\<lambda>pt. pt\<lparr>next := (next pt)(SIDE_BACK := portals (node_mem h back))\<rparr>)) back
        (\<lambda>n. n\<lparr>portals := Some p\<rparr>)"
    using assms(2) by (simp add: AddPortalToNodes_def Let_def)
  show "nodes (portal_mem h' q) s =
           (if q = p then Some (sel_side s front back) else nodes (portal_mem h q) s)" for q s
    unfolding h' by (cases s) simp_all
  show "next (portal_mem h' q) s =
           (if q = p then portals (node_mem h (sel_side s front back)) else next (portal_mem h q) s)" for q s
    unfolding h' by (cases s) simp_all
  show "portals (node_mem h' n) =
           (if n = front \<or> n = back then Some p else portals (node_mem h n))" for n
    unfolding h' by simp
  show "winding (portal_mem h' q) = winding (portal_mem h q)" for q unfolding h' by simp
  show "planenum (portal_mem h' q) = planenum (portal_mem h q)" for q unfolding h' by simp
  show "onnode (portal_mem h' q) = onnode (portal_mem h q)" for q unfolding h' by simp
  show "children (node_mem h' n) = children (node_mem h n)" for n unfolding h' by simp
  show "portal_brk h' = portal_brk h" unfolding h' by simp
qed

lemma AddPortalToNodes_lists:
  assumes v: "valid h" and add: "AddPortalToNodes h p front back = Inr h'"
    and ne: "front \<noteq> back" and brk: "p < portal_brk h"
  shows "valid h'"
    and "\<And>n ps. portal_list h n ps \<Longrightarrow>
           portal_list h' n (if n = front \<or> n = back then p # ps else ps)"
    and "\<And>q n. attached h' q n = (if q = p then n = front \<or> n = back else attached h q n)"
proof -
  note f = AddPortalToNodes_fields [OF add ne]
  have un: "\<not> attached h p n" for n by (simp add: attached_def f(1,2))
  show att: "attached h' q n = (if q = p then n = front \<or> n = back else attached h q n)" for q n
    by (auto simp: attached_def f(3))
  have so: "q \<noteq> p \<Longrightarrow> side_of h' q n = side_of h q n" for q n
    by (simp add: side_of_def f(3))
  have su: "q \<noteq> p \<Longrightarrow> succ_in h' n q = succ_in h n q" for q n
    by (simp add: succ_in_def so f(4))
  have frame: "p \<notin> set ps \<Longrightarrow> seg h' n x ps y = seg h n x ps y" for ps n x y
    by (rule seg_frame) (auto simp: att su)
  have sp_front: "succ_in h' front p = portals (node_mem h front)"
    by (simp add: succ_in_def side_of_def f(3,4))
  have sp_back: "succ_in h' back p = portals (node_mem h back)"
    using ne by (simp add: succ_in_def side_of_def f(3,4))
  show lists: "portal_list h' n (if n = front \<or> n = back then p # ps else ps)"
    if pl: "portal_list h n ps" for n ps
  proof -
    from pl have "p \<notin> set ps"
      using seg_attached [of h n _ ps None p] un by (auto simp: portal_list_def)
    with pl have s: "seg h' n (portals (node_mem h n)) ps None"
      by (simp add: portal_list_def frame)
    show ?thesis
    proof (cases "n = front \<or> n = back")
      case True
      then have "succ_in h' n p = portals (node_mem h n)" using sp_front sp_back by auto
      with True s show ?thesis by (auto simp: portal_list_def f(5) att)
    next
      case False
      with s show ?thesis by (simp add: portal_list_def f(5))
    qed
  qed
  show "valid h'"
    unfolding valid_def
  proof (intro conjI allI impI)
    fix n
    from v obtain ps where ps: "portal_list h n ps" "distinct ps" "set ps = {q. attached h q n}"
      unfolding valid_def by blast
    let ?ps = "if n = front \<or> n = back then p # ps else ps"
    have "p \<notin> set ps" using ps(3) un by auto
    then have "distinct ?ps" using ps(2) by simp
    moreover have "set ?ps = {q. attached h' q n}" using ps(3) un by (auto simp: att)
    ultimately show "\<exists>ps. portal_list h' n ps \<and> distinct ps \<and> set ps = {q. attached h' q n}"
      using lists [OF ps(1)] by blast
  next
    fix q n
    assume "nodes (portal_mem h' q) SIDE_FRONT = Some n"
    then show "nodes (portal_mem h' q) SIDE_BACK \<noteq> Some n"
      using v ne unfolding valid_def by (auto simp: f(3) split: if_splits)
  next
    fix q
    assume "portal_brk h' \<le> q"
    then have "q \<noteq> p" "portal_brk h \<le> q" using brk by (auto simp: f(10))
    then show "nodes (portal_mem h' q) SIDE_FRONT = None" "nodes (portal_mem h' q) SIDE_BACK = None"
      using v unfolding valid_def by (auto simp: f(3))
  qed
qed

lemma last_ref_snoc: "last_ref h l pp (xs @ [x]) = Link x (side_of h x l)"
  by (induction xs arbitrary: pp) auto

lemma find_found:
  "seg h l (read_ref h pp) xs (Some portal) \<Longrightarrow> portal \<notin> set xs \<Longrightarrow>
     RemovePortalFromNode_find h portal l pp = Some (Inr (last_ref h l pp xs))"
proof (induction xs arbitrary: pp)
  case Nil
  then show ?case by (subst RemovePortalFromNode_find.simps) simp
next
  case (Cons t xs)
  from Cons.prems have r: "read_ref h pp = Some t" and a: "attached h t l"
    and s: "seg h l (succ_in h l t) xs (Some portal)" and tp: "t \<noteq> portal" and n: "portal \<notin> set xs"
    by auto
  have rr: "read_ref h (Link t (side_of h t l)) = succ_in h l t" by (simp add: succ_in_def)
  from Cons.IH [of "Link t (side_of h t l)"] s n rr
  have IH: "RemovePortalFromNode_find h portal l (Link t (side_of h t l)) =
      Some (Inr (last_ref h l (Link t (side_of h t l)) xs))" by simp
  show ?case
    using r a tp IH
    by (subst RemovePortalFromNode_find.simps) (auto simp: attached_def side_of_def)
qed

lemma find_missing:
  "seg h l (read_ref h pp) xs None \<Longrightarrow> portal \<notin> set xs \<Longrightarrow>
     RemovePortalFromNode_find h portal l pp = Some (Inl (FError ''Portal not in leaf''))"
proof (induction xs arbitrary: pp)
  case Nil
  then show ?case by (subst RemovePortalFromNode_find.simps) simp
next
  case (Cons t xs)
  from Cons.prems have r: "read_ref h pp = Some t" and a: "attached h t l"
    and s: "seg h l (succ_in h l t) xs None" and tp: "t \<noteq> portal" and n: "portal \<notin> set xs"
    by auto
  have rr: "read_ref h (Link t (side_of h t l)) = succ_in h l t" by (simp add: succ_in_def)
  from Cons.IH [of "Link t (side_of h t l)"] s n rr
  have IH: "RemovePortalFromNode_find h portal l (Link t (side_of h t l)) =
      Some (Inl (FError ''Portal not in leaf''))" by simp
  show ?case
    using r a tp IH
    by (subst RemovePortalFromNode_find.simps) (auto simp: attached_def side_of_def)
qed

lemma valid_sides:
  assumes "valid h" and "attached h q n"
  shows "nodes (portal_mem h q) (side_of h q n) = Some n"
    and "nodes (portal_mem h q) (other_side (side_of h q n)) \<noteq> Some n"
  using assms unfolding valid_def attached_def side_of_def by auto

lemma valid_list:
  assumes "valid h"
  obtains ps where "portal_list h n ps" "distinct ps" "set ps = {p. attached h p n}"
  using assms unfolding valid_def by blast

lemma RemovePortalFromNode_lists:
  assumes v: "valid h" and pl: "portal_list h l (xs @ portal # ys)"
    and d: "distinct (xs @ portal # ys)"
  obtains h' where "RemovePortalFromNode h portal l = Some (Inr h')"
    and "valid h'"
    and "\<And>n ps. portal_list h n ps \<Longrightarrow> portal_list h' n (if n = l then xs @ ys else ps)"
    and "\<And>q s. nodes (portal_mem h' q) s =
           (if q = portal \<and> s = side_of h portal l then None else nodes (portal_mem h q) s)"
    and "\<And>q. winding (portal_mem h' q) = winding (portal_mem h q)"
    and "\<And>q. planenum (portal_mem h' q) = planenum (portal_mem h q)"
    and "\<And>q. onnode (portal_mem h' q) = onnode (portal_mem h q)"
    and "\<And>n. children (node_mem h' n) = children (node_mem h n)"
    and "portal_brk h' = portal_brk h"
proof -
  define s where "s = side_of h portal l"
  define nx where "nx = succ_in h l portal"
  define pp where "pp = last_ref h l (Head l) xs"
  from pl have sx: "seg h l (portals (node_mem h l)) xs (Some portal)"
    and ap: "attached h portal l" and sy: "seg h l nx ys None"
    by (auto simp: portal_list_def seg_append nx_def)
  from d have px: "portal \<notin> set xs" and py: "portal \<notin> set ys" by auto
  have fnd: "RemovePortalFromNode_find h portal l (Head l) = Some (Inr pp)"
    unfolding pp_def using sx px by (intro find_found) simp_all
  define h' where "h' = upd_portal (write_ref h pp nx) portal (\<lambda>pt. pt\<lparr>nodes := (nodes pt)(s := None)\<rparr>)"
  have ns: "nodes (portal_mem h portal) s = Some l"
    and no: "nodes (portal_mem h portal) (other_side s) \<noteq> Some l"
    using valid_sides [OF v ap] by (simp_all add: s_def)
  have res: "RemovePortalFromNode h portal l = Some (Inr h')"
  proof (cases s)
    case SIDE_FRONT
    with ns show ?thesis
      by (simp add: RemovePortalFromNode_def fnd h'_def Let_def nx_def succ_in_def s_def [symmetric])
  next
    case SIDE_BACK
    with ns no show ?thesis
      by (simp add: RemovePortalFromNode_def fnd h'_def Let_def nx_def succ_in_def s_def [symmetric])
  qed
  have nodes': "nodes (portal_mem h' q) s' =
      (if q = portal \<and> s' = s then None else nodes (portal_mem h q) s')" for q s'
    unfolding h'_def by (cases pp) auto
  have other': "winding (portal_mem h' q) = winding (portal_mem h q)"
    "planenum (portal_mem h' q) = planenum (portal_mem h q)"
    "onnode (portal_mem h' q) = onnode (portal_mem h q)" for q
    unfolding h'_def by (cases pp; simp)+
  have ch': "children (node_mem h' n) = children (node_mem h n)" for n
    unfolding h'_def by (cases pp) auto
  have brk': "portal_brk h' = portal_brk h" unfolding h'_def by (cases pp) auto
  have pp_cases: "(xs = [] \<and> pp = Head l) \<or>
      (\<exists>xs' t. xs = xs' @ [t] \<and> pp = Link t (side_of h t l))"
  proof (cases xs rule: rev_cases)
    case Nil
    then show ?thesis by (simp add: pp_def)
  next
    case (snoc xs' t)
    then show ?thesis by (simp add: pp_def last_ref_snoc)
  qed
  have next': "next (portal_mem h' q) s' =
      (if pp = Link q s' then nx else next (portal_mem h q) s')" for q s'
    unfolding h'_def by (cases pp) auto
  have head': "portals (node_mem h' n) = (if pp = Head n then nx else portals (node_mem h n))" for n
    unfolding h'_def by (cases pp) auto
  have att': "attached h' q n = (if q = portal then attached h q n \<and> n \<noteq> l else attached h q n)"
    for q n
  proof (cases "q = portal")
    case True
    show ?thesis
      using ns no unfolding attached_def True nodes' by (cases s) auto
  next
    case False
    then show ?thesis by (simp add: attached_def nodes')
  qed
  have so': "side_of h' q n = side_of h q n" if "attached h q n" "q = portal \<longrightarrow> n \<noteq> l" for q n
  proof (cases "q = portal")
    case True
    with that have "n \<noteq> l" by simp
    with ns show ?thesis unfolding side_of_def True nodes' by (cases s) auto
  next
    case False
    then show ?thesis by (simp add: side_of_def nodes')
  qed
  have su': "succ_in h' n q = succ_in h n q"
    if "attached h q n" "q = portal \<longrightarrow> n \<noteq> l" "\<not> (n = l \<and> pp = Link q (side_of h q l))" for q n
  proof -
    have "pp \<noteq> Link q (side_of h q n)"
    proof
      assume e: "pp = Link q (side_of h q n)"
      with pp_cases obtain xs' where x: "xs = xs' @ [q]" and e2: "side_of h q l = side_of h q n"
        by auto
      from x sx have "attached h q l" using seg_attached [of h l _ xs "Some portal" q] by simp
      from valid_sides(1) [OF v this] have "nodes (portal_mem h q) (side_of h q n) = Some l"
        by (simp only: e2)
      with valid_sides(1) [OF v that(1)] have "n = l" by simp
      with that(3) e show False by simp
    qed
    then show ?thesis by (simp add: succ_in_def so' [OF that(1,2)] next')
  qed
  have lists: "portal_list h' n (if n = l then xs @ ys else ps)" if p: "portal_list h n ps" for n ps
  proof (cases "n = l")
    case True
    have ys': "seg h' l nx ys None"
    proof -
      have "seg h' l nx ys None = seg h l nx ys None"
      proof (rule seg_frame)
        fix q assume q: "q \<in> set ys"
        then have qp: "q \<noteq> portal" using py by auto
        have aq: "attached h q l" using seg_attached [OF sy q] .
        have "pp \<noteq> Link q (side_of h q l)"
          using pp_cases q d by auto
        then show "attached h' q l = attached h q l \<and> succ_in h' l q = succ_in h l q"
          using qp aq by (simp add: att' su')
      qed
      with sy show ?thesis by simp
    qed
    from pp_cases show ?thesis
    proof (elim disjE exE conjE)
      assume "xs = []" "pp = Head l"
      with ys' True show ?thesis by (simp add: portal_list_def head')
    next
      fix xs' t assume x: "xs = xs' @ [t]" and e: "pp = Link t (side_of h t l)"
      from sx x have s1: "seg h l (portals (node_mem h l)) xs' (Some t)" and at: "attached h t l"
        by (auto simp: seg_append)
      from d x have tp: "t \<noteq> portal" and tx: "t \<notin> set xs'" by auto
      have "seg h' l (portals (node_mem h l)) xs' (Some t) = seg h l (portals (node_mem h l)) xs' (Some t)"
      proof (rule seg_frame)
        fix q assume q: "q \<in> set xs'"
        then have qp: "q \<noteq> portal" "q \<noteq> t" using px x tx by auto
        have aq: "attached h q l" using seg_attached [OF s1 q] .
        from qp e show "attached h' q l = attached h q l \<and> succ_in h' l q = succ_in h l q"
          using aq by (simp add: att' su')
      qed
      with s1 have s1': "seg h' l (portals (node_mem h l)) xs' (Some t)" by simp
      have "side_of h' t l = side_of h t l" using so' [OF at] tp by simp
      then have "succ_in h' l t = nx" using e by (simp add: succ_in_def next')
      with at tp ys' have "seg h' l (Some t) (t # ys) None" by (simp add: att')
      with s1' have "seg h' l (portals (node_mem h l)) (xs' @ t # ys) None"
        unfolding seg_append by blast
      with True x e show ?thesis by (simp add: portal_list_def head')
    qed
  next
    case False
    have "seg h' n (portals (node_mem h n)) ps None = seg h n (portals (node_mem h n)) ps None"
    proof (rule seg_frame)
      fix q assume q: "q \<in> set ps"
      have aq: "attached h q n" using seg_attached [OF p [unfolded portal_list_def] q] .
      with False show "attached h' q n = attached h q n \<and> succ_in h' n q = succ_in h n q"
        by (auto simp: att' su')
    qed
    moreover have "portals (node_mem h' n) = portals (node_mem h n)"
      using False pp_cases by (auto simp: head')
    ultimately show ?thesis using p False by (simp add: portal_list_def)
  qed
  have "valid h'"
    unfolding valid_def
  proof (intro conjI allI impI)
    fix n
    obtain ps where ps: "portal_list h n ps" "distinct ps" "set ps = {p. attached h p n}"
      using valid_list [OF v] by blast
    show "\<exists>ps. portal_list h' n ps \<and> distinct ps \<and> set ps = {p. attached h' p n}"
    proof (cases "n = l")
      case True
      from ps(1) pl True have e: "ps = xs @ portal # ys"
        using seg_functional unfolding portal_list_def by blast
      have "set (xs @ ys) = {p. attached h' p n}"
        using ps(3) d unfolding e True by (auto simp: att')
      moreover have "distinct (xs @ ys)" using d by auto
      ultimately show ?thesis using lists [OF ps(1)] True by auto
    next
      case False
      then have "set ps = {p. attached h' p n}" using ps(3) by (auto simp: att')
      with lists [OF ps(1)] False ps(2) show ?thesis by auto
    qed
  next
    fix q n
    assume "nodes (portal_mem h' q) SIDE_FRONT = Some n"
    then show "nodes (portal_mem h' q) SIDE_BACK \<noteq> Some n"
      using v unfolding valid_def by (auto simp: nodes' split: if_splits)
  next
    fix q
    assume "portal_brk h' \<le> q"
    then show "nodes (portal_mem h' q) SIDE_FRONT = None" "nodes (portal_mem h' q) SIDE_BACK = None"
      using v unfolding valid_def by (auto simp: nodes' brk')
  qed
  with res lists nodes' other' ch' brk' that show thesis unfolding s_def by blast
qed

lemma attached_side:
  "attached h q n \<Longrightarrow> nodes (portal_mem h q) (side_of h q n) = Some n"
  unfolding attached_def side_of_def by auto

lemma valid_frame:
  assumes v: "valid h"
    and n: "\<And>q s. nodes (portal_mem h' q) s = nodes (portal_mem h q) s"
    and x: "\<And>q s. nodes (portal_mem h q) s \<noteq> None \<Longrightarrow> next (portal_mem h' q) s = next (portal_mem h q) s"
    and hd: "\<And>m. portals (node_mem h' m) = portals (node_mem h m)"
    and b: "portal_brk h \<le> portal_brk h'"
  shows "valid h'"
    and "\<And>m ps. portal_list h m ps \<Longrightarrow> portal_list h' m ps"
proof -
  have att: "attached h' q m = attached h q m" for q m by (simp add: attached_def n)
  have so: "side_of h' q m = side_of h q m" for q m by (simp add: side_of_def n)
  have su: "attached h q m \<Longrightarrow> succ_in h' m q = succ_in h m q" for q m
    using attached_side [of h q m] x [of q "side_of h q m"] by (simp add: succ_in_def so)
  show lists: "portal_list h' m ps" if p: "portal_list h m ps" for m ps
  proof -
    have "seg h' m (portals (node_mem h m)) ps None = seg h m (portals (node_mem h m)) ps None"
    proof (rule seg_frame)
      fix q assume "q \<in> set ps"
      then have "attached h q m" using seg_attached [OF p [unfolded portal_list_def]] by simp
      then show "attached h' q m = attached h q m \<and> succ_in h' m q = succ_in h m q"
        by (simp add: att su)
    qed
    with p show ?thesis by (simp add: portal_list_def hd)
  qed
  show "valid h'"
    unfolding valid_def
  proof (intro conjI allI impI)
    fix m
    obtain ps where ps: "portal_list h m ps" "distinct ps" "set ps = {p. attached h p m}"
      using valid_list [OF v] by blast
    with lists [OF ps(1)] show "\<exists>ps. portal_list h' m ps \<and> distinct ps \<and> set ps = {p. attached h' p m}"
      by (auto simp: att)
  next
    fix q m assume "nodes (portal_mem h' q) SIDE_FRONT = Some m"
    then show "nodes (portal_mem h' q) SIDE_BACK \<noteq> Some m"
      using v unfolding valid_def by (simp add: n)
  next
    fix q assume "portal_brk h' \<le> q"
    with b have "portal_brk h \<le> q" by simp
    then show "nodes (portal_mem h' q) SIDE_FRONT = None" "nodes (portal_mem h' q) SIDE_BACK = None"
      using v unfolding valid_def by (simp_all add: n)
  qed
qed

lemma valid_brk: "valid h \<Longrightarrow> attached h q n \<Longrightarrow> q < portal_brk h"
  unfolding valid_def attached_def by (metis not_le option.distinct(1))

lemma attach_postD:
  assumes "attach_post h p s c on h'"
  shows "valid h'"
    and "\<And>q s'. nodes (portal_mem h' q) s' =
           (if q = p then (if s' = s then Some c else Some on) else nodes (portal_mem h q) s')"
    and "\<And>q. winding (portal_mem h' q) = winding (portal_mem h q)"
    and "\<And>q. planenum (portal_mem h' q) = planenum (portal_mem h q)"
    and "\<And>q. onnode (portal_mem h' q) = onnode (portal_mem h q)"
    and "\<And>n. children (node_mem h' n) = children (node_mem h n)"
    and "portal_brk h' = portal_brk h"
    and "\<And>m ps. portal_list h m ps \<Longrightarrow> portal_list h' m (if m = c \<or> m = on then p # ps else ps)"
  using assms unfolding attach_post_def by blast+

lemma attach_side:
  assumes v: "valid h" and un: "nodes (portal_mem h p) SIDE_FRONT = None"
    "nodes (portal_mem h p) SIDE_BACK = None" and pb: "p < portal_brk h" and ne: "c \<noteq> on"
  obtains h' where
    "(if s = SIDE_FRONT then AddPortalToNodes_ptr h p (Some c) (Some on)
      else AddPortalToNodes_ptr h p (Some on) (Some c)) = Inr h'"
    and "attach_post h p s c on h'"
proof -
  define fr where "fr = sel_side s c on"
  define bk where "bk = sel_side s on c"
  have fb: "fr \<noteq> bk" using ne by (cases s) (auto simp: fr_def bk_def)
  obtain h' where add: "AddPortalToNodes h p fr bk = Inr h'"
    using un by (auto simp: AddPortalToNodes_def Let_def)
  note f = AddPortalToNodes_fields [OF add fb]
  note l = AddPortalToNodes_lists [OF v add fb pb]
  have 1: "(if s = SIDE_FRONT then AddPortalToNodes_ptr h p (Some c) (Some on)
      else AddPortalToNodes_ptr h p (Some on) (Some c)) = Inr h'"
    using add by (cases s) (auto simp: AddPortalToNodes_ptr_def fr_def bk_def)
  have 2: "nodes (portal_mem h' q) s' =
           (if q = p then (if s' = s then Some c else Some on) else nodes (portal_mem h q) s')" for q s'
    unfolding f(3) by (cases s; cases s') (auto simp: fr_def bk_def)
  have 3: "portal_list h' m (if m = c \<or> m = on then p # ps else ps)" if "portal_list h m ps" for m ps
  proof -
    have "(m = fr \<or> m = bk) = (m = c \<or> m = on)"
      by (cases s) (auto simp: fr_def bk_def)
    with l(2) [OF that] show ?thesis by simp
  qed
  have "attach_post h p s c on h'"
    unfolding attach_post_def using l(1) 2 f(6) f(7) f(8) f(9) f(10) 3 by blast
  with 1 that show thesis by blast
qed

lemma discard_tiny_eq:
  "discard_tiny tiny wnd stats =
     (kept tiny wnd, stats\<lparr>c_tinyportals := c_tinyportals stats + tiny_count tiny wnd\<rparr>)"
  by (simp add: discard_tiny_def kept_def tiny_count_def split: option.splits)

lemma other_side_neq [simp]: "other_side s \<noteq> s" "s \<noteq> other_side s"
  by (cases s; simp)+

lemma side_cases: "s' = s \<or> s' = other_side s"
  by (cases s; cases s') simp_all

lemma cut_props:
  assumes v: "valid h" and un: "nodes (portal_mem h p) SIDE_FRONT = None"
    "nodes (portal_mem h p) SIDE_BACK = None" and pb: "p < portal_brk h"
    and w: "winding (portal_mem h p) = Some wnd"
    and ne: "fn \<noteq> on" "bn \<noteq> on"
    and pt0: "winding pt0 = winding (portal_mem h p)" "planenum pt0 = planenum (portal_mem h p)"
      "onnode pt0 = onnode (portal_mem h p)" "nodes pt0 (other_side s) = Some on"
  obtains h' stats' where
    "SplitNodePortals_cut clip tiny plane (Some fn) (Some bn) h stats p s (Some on) = Inr (h', stats')"
    and "valid h'"
    and "\<And>m ps. m \<noteq> fn \<Longrightarrow> m \<noteq> bn \<Longrightarrow> m \<noteq> on \<Longrightarrow> portal_list h m ps \<Longrightarrow> portal_list h' m ps"
    and "\<And>q. q \<noteq> p \<Longrightarrow> q < portal_brk h \<Longrightarrow>
           nodes (portal_mem h' q) = nodes (portal_mem h q)
           \<and> winding (portal_mem h' q) = winding (portal_mem h q)
           \<and> planenum (portal_mem h' q) = planenum (portal_mem h q)
           \<and> onnode (portal_mem h' q) = onnode (portal_mem h q)"
    and "\<And>n. children (node_mem h' n) = children (node_mem h n)"
    and "portal_brk h \<le> portal_brk h'"
    and "split_outcome clip tiny plane fn bn (portal_brk h) pt0 s h' p"
    and "stats' = stats\<lparr>c_tinyportals := c_tinyportals stats + tiny_fragments clip tiny plane pt0\<rparr>"
proof -
  define cl where "cl = clip wnd plane SPLIT_WINDING_EPSILON True"
  define fw where "fw = kept tiny (fst cl)"
  define bw where "bw = kept tiny (snd cl)"
  define st where "st = stats\<lparr>c_tinyportals := c_tinyportals stats + tiny_fragments clip tiny plane pt0\<rparr>"
  have st: "st = stats\<lparr>c_tinyportals := c_tinyportals stats + tiny_count tiny (fst cl),
      c_tinyportals := c_tinyportals (stats\<lparr>c_tinyportals := c_tinyportals stats + tiny_count tiny (fst cl)\<rparr>)
         + tiny_count tiny (snd cl)\<rparr>"
    by (simp add: st_def tiny_fragments_def pt0(1) w cl_def)
  have cut: "SplitNodePortals_cut clip tiny plane (Some fn) (Some bn) h stats p s (Some on) =
      (if fw = None \<and> bw = None then Inr (h, st)
       else if fw = None then
         (case (if s = SIDE_FRONT then AddPortalToNodes_ptr h p (Some bn) (Some on)
                else AddPortalToNodes_ptr h p (Some on) (Some bn)) of
            Inl e \<Rightarrow> Inl e | Inr h \<Rightarrow> Inr (h, st))
       else if bw = None then
         (case (if s = SIDE_FRONT then AddPortalToNodes_ptr h p (Some fn) (Some on)
                else AddPortalToNodes_ptr h p (Some on) (Some fn)) of
            Inl e \<Rightarrow> Inl e | Inr h \<Rightarrow> Inr (h, st))
       else
         (let new_portal = portal_brk h;
              h = new_portal_copy h p;
              h = upd_portal h new_portal (\<lambda>pt. pt\<lparr>winding := bw\<rparr>);
              h = upd_portal h p (\<lambda>pt. pt\<lparr>winding := fw\<rparr>)
          in if s = SIDE_FRONT then
               (case AddPortalToNodes_ptr h p (Some fn) (Some on) of
                  Inl e \<Rightarrow> Inl e
                | Inr h \<Rightarrow>
                    (case AddPortalToNodes_ptr h new_portal (Some bn) (Some on) of
                       Inl e \<Rightarrow> Inl e | Inr h \<Rightarrow> Inr (h, st)))
             else
               (case AddPortalToNodes_ptr h p (Some on) (Some fn) of
                  Inl e \<Rightarrow> Inl e
                | Inr h \<Rightarrow>
                    (case AddPortalToNodes_ptr h new_portal (Some on) (Some bn) of
                       Inl e \<Rightarrow> Inl e | Inr h \<Rightarrow> Inr (h, st)))))"
    unfolding SplitNodePortals_cut_def w option.case st fw_def bw_def
    by (simp add: discard_tiny_eq cl_def [symmetric] split_beta Let_def)
  have out: "split_outcome clip tiny plane fn bn (portal_brk h) pt0 s h' p =
      (if fw = None \<and> bw = None then
         nodes (portal_mem h' p) SIDE_FRONT = None \<and> nodes (portal_mem h' p) SIDE_BACK = None
       else if fw = None then
         nodes (portal_mem h' p) s = Some bn \<and> nodes (portal_mem h' p) (other_side s) = Some on
         \<and> winding (portal_mem h' p) = Some wnd
       else if bw = None then
         nodes (portal_mem h' p) s = Some fn \<and> nodes (portal_mem h' p) (other_side s) = Some on
         \<and> winding (portal_mem h' p) = Some wnd
       else
         nodes (portal_mem h' p) s = Some fn \<and> nodes (portal_mem h' p) (other_side s) = Some on
         \<and> winding (portal_mem h' p) = fw
         \<and> (\<exists>q. portal_brk h \<le> q \<and> nodes (portal_mem h' q) s = Some bn
                \<and> nodes (portal_mem h' q) (other_side s) = Some on
                \<and> winding (portal_mem h' q) = bw
                \<and> planenum (portal_mem h' q) = planenum (portal_mem h p)
                \<and> onnode (portal_mem h' q) = onnode (portal_mem h p)))" for h' :: "('a, 'b) store"
    by (simp add: split_outcome_def pt0 w fw_def bw_def cl_def Let_def)
  consider (none) "fw = None" "bw = None" | (backonly) y where "fw = None" "bw = Some y"
    | (frontonly) x where "fw = Some x" "bw = None" | (both) x y where "fw = Some x" "bw = Some y"
    by (cases fw; cases bw) auto
  then show thesis
  proof cases
    case none
    show thesis
    proof (rule that [of h st])
      show "SplitNodePortals_cut clip tiny plane (Some fn) (Some bn) h stats p s (Some on) = Inr (h, st)"
        using none by (simp add: cut)
      show "split_outcome clip tiny plane fn bn (portal_brk h) pt0 s h p"
        using none un by (simp add: out)
    qed (use v in \<open>simp_all add: st_def\<close>)
  next
    case backonly
    obtain h' where a: "(if s = SIDE_FRONT then AddPortalToNodes_ptr h p (Some bn) (Some on)
        else AddPortalToNodes_ptr h p (Some on) (Some bn)) = Inr h'"
      and ap: "attach_post h p s bn on h'"
      by (rule attach_side [OF v un pb ne(2), of s])
    note a' = attach_postD [OF ap]
    show thesis
    proof (rule that [of h' st])
      show "SplitNodePortals_cut clip tiny plane (Some fn) (Some bn) h stats p s (Some on) = Inr (h', st)"
        using backonly a by (simp add: cut)
      show "split_outcome clip tiny plane fn bn (portal_brk h) pt0 s h' p"
        using backonly by (simp add: out a'(2,3) w)
      show "portal_list h' m ps" if "m \<noteq> fn" "m \<noteq> bn" "m \<noteq> on" "portal_list h m ps" for m ps
        using a'(8) [OF that(4)] that by simp
      show "nodes (portal_mem h' q) = nodes (portal_mem h q)
           \<and> winding (portal_mem h' q) = winding (portal_mem h q)
           \<and> planenum (portal_mem h' q) = planenum (portal_mem h q)
           \<and> onnode (portal_mem h' q) = onnode (portal_mem h q)" if "q \<noteq> p" for q
        using that by (auto simp: a'(2,3,4,5))
    qed (simp_all add: a' st_def)
  next
    case frontonly
    obtain h' where a: "(if s = SIDE_FRONT then AddPortalToNodes_ptr h p (Some fn) (Some on)
        else AddPortalToNodes_ptr h p (Some on) (Some fn)) = Inr h'"
      and ap: "attach_post h p s fn on h'"
      by (rule attach_side [OF v un pb ne(1), of s])
    note a' = attach_postD [OF ap]
    show thesis
    proof (rule that [of h' st])
      show "SplitNodePortals_cut clip tiny plane (Some fn) (Some bn) h stats p s (Some on) = Inr (h', st)"
        using frontonly a by (simp add: cut)
      show "split_outcome clip tiny plane fn bn (portal_brk h) pt0 s h' p"
        using frontonly by (simp add: out a'(2,3) w)
      show "portal_list h' m ps" if "m \<noteq> fn" "m \<noteq> bn" "m \<noteq> on" "portal_list h m ps" for m ps
        using a'(8) [OF that(4)] that by simp
      show "nodes (portal_mem h' q) = nodes (portal_mem h q)
           \<and> winding (portal_mem h' q) = winding (portal_mem h q)
           \<and> planenum (portal_mem h' q) = planenum (portal_mem h q)
           \<and> onnode (portal_mem h' q) = onnode (portal_mem h q)" if "q \<noteq> p" for q
        using that by (auto simp: a'(2,3,4,5))
    qed (simp_all add: a' st_def)
  next
    case both
    define nw where "nw = portal_brk h"
    define h3 where "h3 = upd_portal (upd_portal (new_portal_copy h p) nw (\<lambda>pt. pt\<lparr>winding := bw\<rparr>)) p
        (\<lambda>pt. pt\<lparr>winding := fw\<rparr>)"
    have np: "nw \<noteq> p" using pb by (simp add: nw_def)
    have nwn: "nodes (portal_mem h nw) s' = None" for s'
      using v unfolding valid_def nw_def by (cases s') auto
    have un': "nodes (portal_mem h p) s' = None" for s' using un by (cases s') auto
    have h3n: "nodes (portal_mem h3 q) s' = nodes (portal_mem h q) s'" for q s'
      by (simp add: h3_def new_portal_copy_def nw_def [symmetric] nwn un')
    have h3x: "nodes (portal_mem h q) s' \<noteq> None \<Longrightarrow> next (portal_mem h3 q) s' = next (portal_mem h q) s'"
      for q s'
      by (auto simp: h3_def new_portal_copy_def nw_def [symmetric] nwn)
    have h3h: "portals (node_mem h3 m) = portals (node_mem h m)" for m
      by (simp add: h3_def new_portal_copy_def)
    have h3b: "portal_brk h3 = Suc (portal_brk h)" by (simp add: h3_def new_portal_copy_def)
    have v3: "valid h3" and l3: "\<And>m ps. portal_list h m ps \<Longrightarrow> portal_list h3 m ps"
      using valid_frame [OF v h3n h3x h3h] h3b by simp_all
    have h3w: "winding (portal_mem h3 q) = (if q = p then fw else if q = nw then bw else winding (portal_mem h q))"
      for q using np by (simp add: h3_def new_portal_copy_def nw_def [symmetric])
    have h3p: "planenum (portal_mem h3 q) = (if q = nw then planenum (portal_mem h p) else planenum (portal_mem h q))"
      "onnode (portal_mem h3 q) = (if q = nw then onnode (portal_mem h p) else onnode (portal_mem h q))"
      for q using np by (simp_all add: h3_def new_portal_copy_def nw_def [symmetric])
    have h3c: "children (node_mem h3 n) = children (node_mem h n)" for n
      by (simp add: h3_def new_portal_copy_def)
    have un3: "nodes (portal_mem h3 p) SIDE_FRONT = None" "nodes (portal_mem h3 p) SIDE_BACK = None"
      by (simp_all add: h3n un)
    have pb3: "p < portal_brk h3" using pb by (simp add: h3b)
    obtain h4 where a4: "(if s = SIDE_FRONT then AddPortalToNodes_ptr h3 p (Some fn) (Some on)
        else AddPortalToNodes_ptr h3 p (Some on) (Some fn)) = Inr h4"
      and ap4: "attach_post h3 p s fn on h4"
      by (rule attach_side [OF v3 un3 pb3 ne(1), of s])
    note a4' = attach_postD [OF ap4]
    have un4: "nodes (portal_mem h4 nw) SIDE_FRONT = None" "nodes (portal_mem h4 nw) SIDE_BACK = None"
      using np by (simp_all add: a4'(2) h3n nwn)
    have pb4: "nw < portal_brk h4" by (simp add: a4'(7) h3b nw_def)
    obtain h5 where a5: "(if s = SIDE_FRONT then AddPortalToNodes_ptr h4 nw (Some bn) (Some on)
        else AddPortalToNodes_ptr h4 nw (Some on) (Some bn)) = Inr h5"
      and ap5: "attach_post h4 nw s bn on h5"
      by (rule attach_side [OF a4'(1) un4 pb4 ne(2), of s])
    note a5' = attach_postD [OF ap5]
    show thesis
    proof (rule that [of h5 st])
      show "SplitNodePortals_cut clip tiny plane (Some fn) (Some bn) h stats p s (Some on) = Inr (h5, st)"
        unfolding cut using both a4 a5 by (cases s) (simp_all add: Let_def h3_def nw_def)
      show "valid h5" by (rule a5'(1))
      show "portal_list h5 m ps" if "m \<noteq> fn" "m \<noteq> bn" "m \<noteq> on" "portal_list h m ps" for m ps
        using a5'(8) [OF a4'(8) [OF l3 [OF that(4)]]] that by simp
      show "nodes (portal_mem h5 q) = nodes (portal_mem h q)
           \<and> winding (portal_mem h5 q) = winding (portal_mem h q)
           \<and> planenum (portal_mem h5 q) = planenum (portal_mem h q)
           \<and> onnode (portal_mem h5 q) = onnode (portal_mem h q)" if "q \<noteq> p" "q < portal_brk h" for q
      proof -
        from that have "q \<noteq> nw" by (simp add: nw_def)
        with that(1) show ?thesis
          by (auto simp: a5'(2,3,4,5) a4'(2,3,4,5) h3n h3w h3p)
      qed
      show "children (node_mem h5 n) = children (node_mem h n)" for n
        by (simp add: a5'(6) a4'(6) h3c)
      show "portal_brk h \<le> portal_brk h5" by (simp add: a5'(7) a4'(7) h3b)
      have "portal_brk h \<le> nw \<and> nodes (portal_mem h5 nw) s = Some bn
                \<and> nodes (portal_mem h5 nw) (other_side s) = Some on
                \<and> winding (portal_mem h5 nw) = bw
                \<and> planenum (portal_mem h5 nw) = planenum (portal_mem h p)
                \<and> onnode (portal_mem h5 nw) = onnode (portal_mem h p)"
        using np by (simp add: nw_def a5'(2,3,4,5) a4'(3,4,5) h3w h3p)
      then show "split_outcome clip tiny plane fn bn (portal_brk h) pt0 s h5 p"
        using both np unfolding out
        by (auto simp: a5'(2,3) a4'(2,3) h3w)
      show "st = stats\<lparr>c_tinyportals := c_tinyportals stats + tiny_fragments clip tiny plane pt0\<rparr>"
        by (simp add: st_def)
    qed
  qed
qed

lemma split_head:
  assumes "distinct (p # ps)" and "xs @ p # ys = p # ps"
  shows "xs = [] \<and> ys = ps"
proof (cases xs)
  case Nil
  with assms show ?thesis by simp
next
  case (Cons x xs')
  with assms(2) have "x = p" "ps = xs' @ p # ys" by simp_all
  with assms(1) show ?thesis by simp
qed

lemma seg_head: "seg h n x ps None \<Longrightarrow> x = head_of ps"
  by (cases ps) (auto simp: head_of_def)

lemma body_props:
  assumes v: "valid h" and pl: "portal_list h node (p # ps)" and d: "distinct (p # ps)"
    and other: "nodes (portal_mem h p) (other_side (side_of h p node)) = Some on"
    and w: "winding (portal_mem h p) = Some wnd"
    and ne: "fn \<noteq> on" "bn \<noteq> on" "fn \<noteq> node" "bn \<noteq> node"
  obtains h' stats' where
    "SplitNodePortals_body clip tiny plane node (Some fn) (Some bn) h stats p =
       Some (Inr (h', stats', head_of ps))"
    and "valid h'"
    and "portal_list h' node ps"
    and "\<And>q. q \<noteq> p \<Longrightarrow> q < portal_brk h \<Longrightarrow>
           nodes (portal_mem h' q) = nodes (portal_mem h q)
           \<and> winding (portal_mem h' q) = winding (portal_mem h q)
           \<and> planenum (portal_mem h' q) = planenum (portal_mem h q)
           \<and> onnode (portal_mem h' q) = onnode (portal_mem h q)"
    and "\<And>n. children (node_mem h' n) = children (node_mem h n)"
    and "portal_brk h \<le> portal_brk h'"
    and "split_outcome clip tiny plane fn bn (portal_brk h) (portal_mem h p) (side_of h p node) h' p"
    and "stats' = stats\<lparr>c_tinyportals := c_tinyportals stats
            + tiny_fragments clip tiny plane (portal_mem h p)\<rparr>"
proof -
  define s where "s = side_of h p node"
  from pl have ap: "attached h p node" and sg: "seg h node (succ_in h node p) ps None"
    by (simp_all add: portal_list_def)
  have ns: "nodes (portal_mem h p) s = Some node" using attached_side [OF ap] by (simp add: s_def)
  have no: "nodes (portal_mem h p) (other_side s) = Some on" using other by (simp add: s_def)
  have onn: "on \<noteq> node" using valid_sides(2) [OF v ap] no by (auto simp: s_def)
  have nxt: "next (portal_mem h p) s = head_of ps"
    using seg_head [OF sg] by (simp add: succ_in_def s_def)
  have sd: "(if nodes (portal_mem h p) SIDE_FRONT = Some node then Some SIDE_FRONT
            else if nodes (portal_mem h p) SIDE_BACK = Some node then Some SIDE_BACK
            else None) = Some s"
    using ns by (cases s) (auto simp: s_def side_of_def)
  obtain n0 n1 where n0: "nodes (portal_mem h p) SIDE_FRONT = Some n0"
    and n1: "nodes (portal_mem h p) SIDE_BACK = Some n1"
    using ns no by (cases s) auto
  have n01: "(n0 = node \<and> n1 = on) \<or> (n0 = on \<and> n1 = node)"
    using ns no n0 n1 by (cases s) auto
  have pb: "p < portal_brk h" using valid_brk [OF v ap] .
  have a0: "attached h p n0" by (simp add: attached_def n0)
  have s0: "side_of h p n0 = SIDE_FRONT" by (simp add: side_of_def n0)
  obtain ps0 where ps0: "portal_list h n0 ps0" "distinct ps0" "set ps0 = {q. attached h q n0}"
    using valid_list [OF v] by blast
  from ps0(3) a0 have "p \<in> set ps0" by simp
  then obtain xs ys where e0: "ps0 = xs @ p # ys" by (meson split_list)
  obtain h1 where r1: "RemovePortalFromNode h p n0 = Some (Inr h1)" and v1: "valid h1"
    and l1: "\<And>n qs. portal_list h n qs \<Longrightarrow> portal_list h1 n (if n = n0 then xs @ ys else qs)"
    and f1: "\<And>q s'. nodes (portal_mem h1 q) s' =
           (if q = p \<and> s' = SIDE_FRONT then None else nodes (portal_mem h q) s')"
      "\<And>q. winding (portal_mem h1 q) = winding (portal_mem h q)"
      "\<And>q. planenum (portal_mem h1 q) = planenum (portal_mem h q)"
      "\<And>q. onnode (portal_mem h1 q) = onnode (portal_mem h q)"
      "\<And>n. children (node_mem h1 n) = children (node_mem h n)"
      "portal_brk h1 = portal_brk h"
    using RemovePortalFromNode_lists [OF v ps0(1) [unfolded e0] ps0(2) [unfolded e0]]
    unfolding s0 by blast
  have n1': "nodes (portal_mem h1 p) SIDE_BACK = Some n1" by (simp add: f1(1) n1)
  have a1: "attached h1 p n1" by (simp add: attached_def n1')
  have s1: "side_of h1 p n1 = SIDE_BACK" by (simp add: side_of_def f1(1))
  obtain ps1 where ps1: "portal_list h1 n1 ps1" "distinct ps1" "set ps1 = {q. attached h1 q n1}"
    using valid_list [OF v1] by blast
  from ps1(3) a1 have "p \<in> set ps1" by simp
  then obtain xs' ys' where e1: "ps1 = xs' @ p # ys'" by (meson split_list)
  obtain h2 where r2: "RemovePortalFromNode h1 p n1 = Some (Inr h2)" and v2: "valid h2"
    and l2: "\<And>n qs. portal_list h1 n qs \<Longrightarrow> portal_list h2 n (if n = n1 then xs' @ ys' else qs)"
    and f2: "\<And>q s'. nodes (portal_mem h2 q) s' =
           (if q = p \<and> s' = SIDE_BACK then None else nodes (portal_mem h1 q) s')"
      "\<And>q. winding (portal_mem h2 q) = winding (portal_mem h1 q)"
      "\<And>q. planenum (portal_mem h2 q) = planenum (portal_mem h1 q)"
      "\<And>q. onnode (portal_mem h2 q) = onnode (portal_mem h1 q)"
      "\<And>n. children (node_mem h2 n) = children (node_mem h1 n)"
      "portal_brk h2 = portal_brk h1"
    using RemovePortalFromNode_lists [OF v1 ps1(1) [unfolded e1] ps1(2) [unfolded e1]]
    unfolding s1 by blast
  have ln: "portal_list h2 node ps"
    using n01
  proof (elim disjE conjE)
    assume "n0 = node" "n1 = on"
    with ps0(1) pl have "ps0 = p # ps" using seg_functional unfolding portal_list_def by blast
    with e0 have "xs @ p # ys = p # ps" by (simp only:)
    from split_head [OF d this] have "xs @ ys = ps" by simp
    with l1 [OF pl] \<open>n0 = node\<close> have "portal_list h1 node ps" by simp
    from l2 [OF this] \<open>n1 = on\<close> onn show ?thesis by simp
  next
    assume "n0 = on" "n1 = node"
    with l1 [OF pl] onn have p1: "portal_list h1 node (p # ps)" by simp
    with ps1(1) \<open>n1 = node\<close> have "ps1 = p # ps"
      using seg_functional unfolding portal_list_def by blast
    with e1 have "xs' @ p # ys' = p # ps" by (simp only:)
    from split_head [OF d this] have "xs' @ ys' = ps" by simp
    with l2 [OF p1] \<open>n1 = node\<close> show ?thesis by simp
  qed
  have un2: "nodes (portal_mem h2 p) SIDE_FRONT = None" "nodes (portal_mem h2 p) SIDE_BACK = None"
    by (simp_all add: f2(1) f1(1))
  have pb2: "p < portal_brk h2" using pb by (simp add: f2(6) f1(6))
  have w2: "winding (portal_mem h2 p) = Some wnd" by (simp add: f2(2) f1(2) w)
  obtain h' stats' where
    c: "SplitNodePortals_cut clip tiny plane (Some fn) (Some bn) h2 stats p s (Some on) = Inr (h', stats')"
    and cv: "valid h'"
    and cl: "\<And>m ps. m \<noteq> fn \<Longrightarrow> m \<noteq> bn \<Longrightarrow> m \<noteq> on \<Longrightarrow> portal_list h2 m ps \<Longrightarrow> portal_list h' m ps"
    and cf: "\<And>q. q \<noteq> p \<Longrightarrow> q < portal_brk h2 \<Longrightarrow>
           nodes (portal_mem h' q) = nodes (portal_mem h2 q)
           \<and> winding (portal_mem h' q) = winding (portal_mem h2 q)
           \<and> planenum (portal_mem h' q) = planenum (portal_mem h2 q)
           \<and> onnode (portal_mem h' q) = onnode (portal_mem h2 q)"
    and cc: "\<And>n. children (node_mem h' n) = children (node_mem h2 n)"
    and cb: "portal_brk h2 \<le> portal_brk h'"
    and co: "split_outcome clip tiny plane fn bn (portal_brk h2) (portal_mem h p) s h' p"
    and cs: "stats' = stats\<lparr>c_tinyportals := c_tinyportals stats
            + tiny_fragments clip tiny plane (portal_mem h p)\<rparr>"
    by (rule cut_props [OF v2 un2 pb2 w2 ne(1,2), of "portal_mem h p" s clip tiny plane stats])
      (simp_all add: f2 f1 no)
  show thesis
  proof (rule that [of h' stats'])
    show "SplitNodePortals_body clip tiny plane node (Some fn) (Some bn) h stats p =
       Some (Inr (h', stats', head_of ps))"
      unfolding SplitNodePortals_body_def sd
      by (simp add: Let_def n0 r1 n1' r2 c nxt no)
    show "valid h'" by (rule cv)
    show "portal_list h' node ps" using cl [OF _ _ _ ln] ne onn by auto
    show "nodes (portal_mem h' q) = nodes (portal_mem h q)
           \<and> winding (portal_mem h' q) = winding (portal_mem h q)
           \<and> planenum (portal_mem h' q) = planenum (portal_mem h q)
           \<and> onnode (portal_mem h' q) = onnode (portal_mem h q)" if "q \<noteq> p" "q < portal_brk h" for q
    proof -
      from that have "q < portal_brk h2" by (simp add: f2(6) f1(6))
      from cf [OF that(1) this] that(1) show ?thesis by (auto simp: f2 f1)
    qed
    show "children (node_mem h' n) = children (node_mem h n)" for n by (simp add: cc f2 f1)
    show "portal_brk h \<le> portal_brk h'" using cb by (simp add: f2(6) f1(6))
    show "split_outcome clip tiny plane fn bn (portal_brk h) (portal_mem h p) (side_of h p node) h' p"
      using co by (simp add: f2(6) f1(6) s_def)
    show "stats' = stats\<lparr>c_tinyportals := c_tinyportals stats
            + tiny_fragments clip tiny plane (portal_mem h p)\<rparr>" by (rule cs)
  qed
qed

lemma same_fields_side: "same_fields h h' q \<Longrightarrow> side_of h' q n = side_of h q n"
  by (simp add: same_fields_def side_of_def)

lemma same_fields_splittable:
  assumes "same_fields h h' q"
  shows "splittable h' node fn bn q = splittable h node fn bn q"
proof -
  from assms have e: "nodes (portal_mem h' q) = nodes (portal_mem h q)"
    "winding (portal_mem h' q) = winding (portal_mem h q)"
    by (simp_all add: same_fields_def)
  show ?thesis unfolding splittable_def same_fields_side [OF assms] e ..
qed

lemma same_fields_trans:
  "same_fields h h1 q \<Longrightarrow> same_fields h1 h' q \<Longrightarrow> same_fields h h' q"
  by (simp add: same_fields_def)

lemma split_outcome_cong:
  assumes "same_fields h h1 q"
  shows "split_outcome clip tiny plane fn bn brk0 (portal_mem h1 q) s h' p =
         split_outcome clip tiny plane fn bn brk0 (portal_mem h q) s h' p"
proof -
  from assms have e: "nodes (portal_mem h1 q) = nodes (portal_mem h q)"
    "winding (portal_mem h1 q) = winding (portal_mem h q)"
    "planenum (portal_mem h1 q) = planenum (portal_mem h q)"
    "onnode (portal_mem h1 q) = onnode (portal_mem h q)"
    by (simp_all add: same_fields_def)
  show ?thesis unfolding split_outcome_def e ..
qed

lemma tiny_fragments_cong:
  assumes "same_fields h h1 q"
  shows "tiny_fragments clip tiny plane (portal_mem h1 q) = tiny_fragments clip tiny plane (portal_mem h q)"
  using assms by (simp add: tiny_fragments_def same_fields_def)

lemma split_outcome_mono:
  assumes "split_outcome clip tiny plane fn bn brk1 pt0 s h' p" and "brk0 \<le> brk1"
  shows "split_outcome clip tiny plane fn bn brk0 pt0 s h' p"
proof (cases "winding pt0")
  case None
  with assms show ?thesis by (simp add: split_outcome_def)
next
  case (Some wnd)
  have "\<exists>q. brk0 \<le> q \<and> P q" if "\<exists>q. brk1 \<le> q \<and> P q" for P
    using that assms(2) by (meson order_trans)
  with assms(1) show ?thesis
    unfolding split_outcome_def Some option.case Let_def
    by (simp split: if_splits)
qed

lemma split_outcome_persist:
  assumes o: "split_outcome clip tiny plane fn bn brk0 pt0 s h1 p"
    and v: "valid h1"
    and fp: "same_fields h1 h' p"
    and f: "\<And>q. brk0 \<le> q \<Longrightarrow> q < portal_brk h1 \<Longrightarrow> same_fields h1 h' q"
  shows "split_outcome clip tiny plane fn bn brk0 pt0 s h' p"
proof (cases "winding pt0")
  case None
  with o show ?thesis by (simp add: split_outcome_def)
next
  case (Some wnd)
  have np: "nodes (portal_mem h' p) = nodes (portal_mem h1 p)"
    and wp: "winding (portal_mem h' p) = winding (portal_mem h1 p)"
    using fp by (simp_all add: same_fields_def)
  have ex: "\<exists>q. brk0 \<le> q \<and> nodes (portal_mem h' q) s = Some bn \<and> nodes (portal_mem h' q) (other_side s) = x
        \<and> winding (portal_mem h' q) = y \<and> planenum (portal_mem h' q) = z \<and> onnode (portal_mem h' q) = u"
    if "\<exists>q. brk0 \<le> q \<and> nodes (portal_mem h1 q) s = Some bn \<and> nodes (portal_mem h1 q) (other_side s) = x
        \<and> winding (portal_mem h1 q) = y \<and> planenum (portal_mem h1 q) = z \<and> onnode (portal_mem h1 q) = u"
    for x y z u
  proof -
    from that obtain q where q: "brk0 \<le> q" "nodes (portal_mem h1 q) s = Some bn"
      "nodes (portal_mem h1 q) (other_side s) = x" "winding (portal_mem h1 q) = y"
      "planenum (portal_mem h1 q) = z" "onnode (portal_mem h1 q) = u" by blast
    from q(2) have "attached h1 q bn" by (cases s) (auto simp: attached_def)
    from valid_brk [OF v this] have "q < portal_brk h1" .
    from f [OF q(1) this] have "same_fields h1 h' q" .
    with q show ?thesis unfolding same_fields_def by auto
  qed
  from o show ?thesis
    unfolding split_outcome_def Some option.case Let_def np wp
    by (auto split: if_splits intro!: ex)
qed

lemma loop_props:
  assumes "valid h" and "portal_list h node ps" and "distinct ps"
    and "\<forall>p\<in>set ps. splittable h node fn bn p"
    and ne: "fn \<noteq> node" "bn \<noteq> node"
  shows "\<exists>h' stats'.
      SplitNodePortals_loop clip tiny plane node (Some fn) (Some bn) h stats (head_of ps) =
        Some (Inr (h', stats'))
      \<and> valid h' \<and> portal_list h' node []
      \<and> (\<forall>q. q \<notin> set ps \<longrightarrow> q < portal_brk h \<longrightarrow> same_fields h h' q)
      \<and> (\<forall>n. children (node_mem h' n) = children (node_mem h n))
      \<and> portal_brk h \<le> portal_brk h'
      \<and> (\<forall>p\<in>set ps. split_outcome clip tiny plane fn bn (portal_brk h) (portal_mem h p)
             (side_of h p node) h' p)
      \<and> stats' = stats\<lparr>c_tinyportals := c_tinyportals stats
            + sum_list (map (\<lambda>p. tiny_fragments clip tiny plane (portal_mem h p)) ps)\<rparr>"
  using assms(1-4)
proof (induction ps arbitrary: h stats)
  case Nil
  then show ?case
    by (subst SplitNodePortals_loop.simps) (simp add: head_of_def same_fields_def)
next
  case (Cons p ps)
  note v = Cons.prems(1) and pl = Cons.prems(2) and d = Cons.prems(3)
  from Cons.prems(4) have sp: "splittable h node fn bn p"
    and sps: "\<And>q. q \<in> set ps \<Longrightarrow> splittable h node fn bn q" by simp_all
  from sp obtain on wnd where
    on: "nodes (portal_mem h p) (other_side (side_of h p node)) = Some on"
    and w: "winding (portal_mem h p) = Some wnd" and neo: "fn \<noteq> on" "bn \<noteq> on"
    by (auto simp: splittable_def split: option.splits)
  have lt: "q < portal_brk h" if "q \<in> set (p # ps)" for q
    using valid_brk [OF v seg_attached [OF pl [unfolded portal_list_def] that]] .
  obtain h1 stats1 where
    b: "SplitNodePortals_body clip tiny plane node (Some fn) (Some bn) h stats p =
       Some (Inr (h1, stats1, head_of ps))"
    and v1: "valid h1"
    and pl1: "portal_list h1 node ps"
    and f1: "\<And>q. q \<noteq> p \<Longrightarrow> q < portal_brk h \<Longrightarrow>
           nodes (portal_mem h1 q) = nodes (portal_mem h q)
           \<and> winding (portal_mem h1 q) = winding (portal_mem h q)
           \<and> planenum (portal_mem h1 q) = planenum (portal_mem h q)
           \<and> onnode (portal_mem h1 q) = onnode (portal_mem h q)"
    and c1: "\<And>n. children (node_mem h1 n) = children (node_mem h n)"
    and b1: "portal_brk h \<le> portal_brk h1"
    and o1: "split_outcome clip tiny plane fn bn (portal_brk h) (portal_mem h p) (side_of h p node) h1 p"
    and s1: "stats1 = stats\<lparr>c_tinyportals := c_tinyportals stats
            + tiny_fragments clip tiny plane (portal_mem h p)\<rparr>"
    by (rule body_props [OF v pl d on w neo ne, of clip tiny plane stats]) blast
  have sf1: "same_fields h h1 q" if "q \<noteq> p" "q < portal_brk h" for q
    using f1 [OF that] by (simp add: same_fields_def)
  have tl: "same_fields h h1 q" if "q \<in> set ps" for q
  proof -
    from that d have "q \<noteq> p" by auto
    moreover from that have "q < portal_brk h" using lt by simp
    ultimately show ?thesis by (rule sf1)
  qed
  have sp1: "\<forall>q\<in>set ps. splittable h1 node fn bn q"
    using sps by (simp add: same_fields_splittable [OF tl])
  from d have d1: "distinct ps" by simp
  from Cons.IH [OF v1 pl1 d1 sp1, of stats1]
  obtain h' stats' where
    l: "SplitNodePortals_loop clip tiny plane node (Some fn) (Some bn) h1 stats1 (head_of ps) =
        Some (Inr (h', stats'))"
    and v': "valid h'" and pl': "portal_list h' node []"
    and f': "\<And>q. q \<notin> set ps \<Longrightarrow> q < portal_brk h1 \<Longrightarrow> same_fields h1 h' q"
    and c': "\<And>n. children (node_mem h' n) = children (node_mem h1 n)"
    and b': "portal_brk h1 \<le> portal_brk h'"
    and o': "\<And>q. q \<in> set ps \<Longrightarrow> split_outcome clip tiny plane fn bn (portal_brk h1) (portal_mem h1 q)
             (side_of h1 q node) h' q"
    and s': "stats' = stats1\<lparr>c_tinyportals := c_tinyportals stats1
            + sum_list (map (\<lambda>p. tiny_fragments clip tiny plane (portal_mem h1 p)) ps)\<rparr>"
    by blast
  have run: "SplitNodePortals_loop clip tiny plane node (Some fn) (Some bn) h stats (head_of (p # ps)) =
        Some (Inr (h', stats'))"
    by (subst SplitNodePortals_loop.simps) (simp add: head_of_def [of "p # ps"] b l)
  have frame: "same_fields h h' q" if "q \<notin> set (p # ps)" "q < portal_brk h" for q
  proof -
    from that have "q \<noteq> p" "q \<notin> set ps" by auto
    from sf1 [OF this(1) that(2)] f' [OF this(2)] that(2) b1 show ?thesis
      by (auto intro: same_fields_trans)
  qed
  have pp: "same_fields h1 h' p"
  proof (rule f')
    from d show "p \<notin> set ps" by simp
    from lt [of p] b1 show "p < portal_brk h1" by simp
  qed
  have fresh: "same_fields h1 h' q" if "portal_brk h \<le> q" "q < portal_brk h1" for q
  proof (rule f' [OF _ that(2)])
    show "q \<notin> set ps" using lt [of q] that(1) by auto
  qed
  have op: "split_outcome clip tiny plane fn bn (portal_brk h) (portal_mem h p) (side_of h p node) h' p"
    by (rule split_outcome_persist [OF o1 v1 pp fresh])
  have oq: "split_outcome clip tiny plane fn bn (portal_brk h) (portal_mem h q) (side_of h q node) h' q"
    if "q \<in> set ps" for q
  proof -
    from o' [OF that] have "split_outcome clip tiny plane fn bn (portal_brk h1) (portal_mem h q)
             (side_of h q node) h' q"
      by (simp add: split_outcome_cong [OF tl [OF that]] same_fields_side [OF tl [OF that]])
    then show ?thesis using b1 by (rule split_outcome_mono)
  qed
  have sm: "map (\<lambda>p. tiny_fragments clip tiny plane (portal_mem h1 p)) ps =
      map (\<lambda>p. tiny_fragments clip tiny plane (portal_mem h p)) ps"
    by (rule map_cong) (simp_all add: tiny_fragments_cong [OF tl])
  have st: "stats' = stats\<lparr>c_tinyportals := c_tinyportals stats
            + sum_list (map (\<lambda>p. tiny_fragments clip tiny plane (portal_mem h p)) (p # ps))\<rparr>"
    unfolding s' sm s1 by simp
  have ch: "\<forall>n. children (node_mem h' n) = children (node_mem h n)" by (simp add: c' c1)
  have bb: "portal_brk h \<le> portal_brk h'" using b1 b' by simp
  from run v' pl' frame ch bb op oq st show ?case by auto
qed

lemma split_outcome_upd_node:
  "split_outcome clip tiny plane fn bn brk0 pt0 s (upd_node h n f) p =
   split_outcome clip tiny plane fn bn brk0 pt0 s h p"
  unfolding split_outcome_def upd_node_simps ..

lemma SplitNodePortals_props:
  assumes v: "valid h"
    and pa: "planes_at planes (node_planenum (node_mem h node)) = Inr plane"
    and ch: "children (node_mem h node) SIDE_FRONT = Some fn"
      "children (node_mem h node) SIDE_BACK = Some bn"
    and ne: "fn \<noteq> node" "bn \<noteq> node"
    and sp: "\<And>p. attached h p node \<Longrightarrow> splittable h node fn bn p"
  obtains h' stats' where
    "SplitNodePortals clip tiny planes h stats node = Some (Inr (h', stats'))"
    and "valid h'"
    and "portals (node_mem h' node) = None"
    and "\<And>p. attached h p node \<Longrightarrow>
           split_outcome clip tiny plane fn bn (portal_brk h) (portal_mem h p) (side_of h p node) h' p"
    and "c_tinyportals stats' = c_tinyportals stats
           + (\<Sum>p | attached h p node. tiny_fragments clip tiny plane (portal_mem h p))"
proof -
  obtain ps where ps: "portal_list h node ps" "distinct ps" "set ps = {p. attached h p node}"
    using valid_list [OF v] by blast
  have hd: "portals (node_mem h node) = head_of ps"
    using seg_head [OF ps(1) [unfolded portal_list_def]] .
  have "\<forall>p\<in>set ps. splittable h node fn bn p" using sp ps(3) by simp
  from loop_props [OF v ps(1,2) this ne, of clip tiny plane stats]
  obtain h1 stats' where
    l: "SplitNodePortals_loop clip tiny plane node (Some fn) (Some bn) h stats (head_of ps) =
        Some (Inr (h1, stats'))"
    and v1: "valid h1" and pl1: "portal_list h1 node []"
    and o1: "\<And>p. p \<in> set ps \<Longrightarrow> split_outcome clip tiny plane fn bn (portal_brk h) (portal_mem h p)
             (side_of h p node) h1 p"
    and s1: "stats' = stats\<lparr>c_tinyportals := c_tinyportals stats
            + sum_list (map (\<lambda>p. tiny_fragments clip tiny plane (portal_mem h p)) ps)\<rparr>"
    by blast
  define h' where "h' = upd_node h1 node (\<lambda>n. n\<lparr>portals := None\<rparr>)"
  from pl1 have e1: "portals (node_mem h1 node) = None" by (simp add: portal_list_def)
  have hp: "portals (node_mem h' m) = portals (node_mem h1 m)" for m
    by (simp add: h'_def e1)
  show thesis
  proof (rule that [of h' stats'])
    show "SplitNodePortals clip tiny planes h stats node = Some (Inr (h', stats'))"
      unfolding SplitNodePortals_def pa by (simp add: Let_def ch hd l h'_def)
    show "valid h'"
      by (rule valid_frame(1) [OF v1 _ _ hp]) (simp_all add: h'_def)
    show "portals (node_mem h' node) = None" by (simp add: h'_def)
    show "split_outcome clip tiny plane fn bn (portal_brk h) (portal_mem h p) (side_of h p node) h' p"
      if "attached h p node" for p
      unfolding h'_def split_outcome_upd_node using o1 [of p] that ps(3) by simp
    show "c_tinyportals stats' = c_tinyportals stats
           + (\<Sum>p | attached h p node. tiny_fragments clip tiny plane (portal_mem h p))"
      unfolding s1 using sum_list_distinct_conv_sum_set [OF ps(2)] ps(3) by simp
  qed
qed

lemma valid_once:
  assumes v: "valid h" and n: "nodes (portal_mem h p) s = Some n"
  shows "\<exists>xs ys. portal_list h n (xs @ p # ys) \<and> p \<notin> set xs \<and> p \<notin> set ys
           \<and> seg h n (next (portal_mem h p) s) ys None"
proof -
  from n have a: "attached h p n" by (cases s) (auto simp: attached_def)
  have so: "side_of h p n = s"
    using valid_sides(2) [OF v a] n side_cases [of s "side_of h p n"] by auto
  obtain ps where ps: "portal_list h n ps" "distinct ps" "set ps = {p. attached h p n}"
    using valid_list [OF v] by blast
  from ps(3) a have "p \<in> set ps" by simp
  then obtain xs ys where e: "ps = xs @ p # ys" by (meson split_list)
  from ps(2) have "p \<notin> set xs" "p \<notin> set ys" unfolding e by auto
  moreover from ps(1) have "seg h n (next (portal_mem h p) s) ys None"
    unfolding e portal_list_def seg_append by (auto simp: succ_in_def so)
  ultimately show ?thesis using ps(1) unfolding e by blast
qed

lemma RemovePortalFromNode_valid:
  assumes v: "valid h" and r: "RemovePortalFromNode h p l = Some (Inr h')"
  shows "valid h'"
proof -
  obtain ps where ps: "portal_list h l ps" "distinct ps" "set ps = {p. attached h p l}"
    using valid_list [OF v] by blast
  show ?thesis
  proof (cases "p \<in> set ps")
    case True
    then obtain xs ys where e: "ps = xs @ p # ys" by (meson split_list)
    obtain h2 where "RemovePortalFromNode h p l = Some (Inr h2)" "valid h2"
      by (rule RemovePortalFromNode_lists [OF v ps(1) [unfolded e] ps(2) [unfolded e]])
    with r show ?thesis by simp
  next
    case False
    have "RemovePortalFromNode_find h p l (Head l) = Some (Inl (FError ''Portal not in leaf''))"
      by (rule find_missing [OF _ False]) (use ps(1) in \<open>simp add: portal_list_def\<close>)
    with r show ?thesis by (simp add: RemovePortalFromNode_def)
  qed
qed

lemma AddPortalToNodes_valid:
  assumes "valid h" and "AddPortalToNodes h p fr bk = Inr h'" and "fr \<noteq> bk" and "p < portal_brk h"
  shows "valid h'"
  using AddPortalToNodes_lists(1) [OF assms] .

lemma valid_split_empty: "valid split_empty"
  unfolding valid_def
  by (auto simp: split_empty_def portal_list_def attached_def intro: exI [of _ "[]"])

lemma split_store_add: "AddPortalToNodes split_empty 0 0 3 = Inr split_store"
  by (simp add: split_store_def AddPortalToNodes_def split_empty_def Let_def)

lemma valid_split_store: "valid split_store"
  by (rule AddPortalToNodes_valid [OF valid_split_empty split_store_add])
    (simp_all add: split_empty_def)

lemma split_store_fields:
  "nodes (portal_mem split_store p) s =
     (if p = 0 then (if s = SIDE_FRONT then Some 0 else Some 3) else None)"
  "winding (portal_mem split_store p) = Some 7"
  "children (node_mem split_store 0) SIDE_FRONT = Some 1"
  "children (node_mem split_store 0) SIDE_BACK = Some 2"
  "node_planenum (node_mem split_store 0) = 0"
  "portal_brk split_store = 1"
proof -
  have ne: "(0::nat) \<noteq> 3" by simp
  note f = AddPortalToNodes_fields [OF split_store_add ne]
  show "nodes (portal_mem split_store p) s =
     (if p = 0 then (if s = SIDE_FRONT then Some 0 else Some 3) else None)"
    unfolding f(3) by (cases s) (simp_all add: split_empty_def)
  show "winding (portal_mem split_store p) = Some 7"
    unfolding f(6) by (simp add: split_empty_def)
  show "children (node_mem split_store 0) SIDE_FRONT = Some 1"
    unfolding f(9) by (simp add: split_empty_def)
  show "children (node_mem split_store 0) SIDE_BACK = Some 2"
    unfolding f(9) by (simp add: split_empty_def)
  show "node_planenum (node_mem split_store 0) = 0"
    by (simp add: split_store_def AddPortalToNodes_def split_empty_def Let_def)
  show "portal_brk split_store = 1"
    unfolding f(10) by (simp add: split_empty_def)
qed

lemma split_store_attached: "attached split_store p 0 = (p = 0)"
  by (simp add: attached_def split_store_fields)

lemma split_store_splittable: "\<forall>p. attached split_store p 0 \<longrightarrow> splittable split_store 0 1 2 p"
  by (simp add: split_store_attached splittable_def side_of_def split_store_fields)

lemma split_store_plane:
  "planes_at split_planes (node_planenum (node_mem split_store 0)) = Inr (split_planes ! 0)"
  by (simp add: planes_at_def split_store_fields split_planes_def)

lemma split_store_list: "portal_list split_store 0 ([] @ 0 # [])"
proof -
  have "portal_list split_empty 0 []" by (simp add: portal_list_def split_empty_def)
  from AddPortalToNodes_lists(2) [OF valid_split_empty split_store_add _ _ this]
  show ?thesis by (simp add: split_empty_def)
qed

text \<open>
  C1 (as stated).  An absent fragment is not counted: the clip leaves the whole winding
  of the portal in front of the plane, the portal moves to \<open>children[0]\<close> with its winding
  and its other endpoint, and \<open>c_tinyportals\<close> is still 0.
\<close>

theorem SplitNodePortals_absent_not_counted:
  "split_view (SplitNodePortals clip_front never_tiny split_planes split_store
      \<lparr>c_tinyportals = 0\<rparr> 0) = Some (Inr (0, Some 1, Some 3, Some 7, None))"
proof -
  have sp: "\<And>p. attached split_store p 0 \<Longrightarrow> splittable split_store 0 1 2 p"
    using split_store_splittable by simp
  have n: "(1::nat) \<noteq> 0" "(2::nat) \<noteq> 0" by simp_all
  show ?thesis
  proof (rule SplitNodePortals_props [OF valid_split_store split_store_plane split_store_fields(3,4) n sp,
          of clip_front never_tiny "\<lparr>c_tinyportals = 0\<rparr>"])
    fix h' stats'
    assume r: "SplitNodePortals clip_front never_tiny split_planes split_store
        \<lparr>c_tinyportals = 0\<rparr> 0 = Some (Inr (h', stats'))"
      and e: "portals (node_mem h' 0) = None"
      and o: "\<And>p. attached split_store p 0 \<Longrightarrow>
        split_outcome clip_front never_tiny (split_planes ! 0) 1 2 (portal_brk split_store)
          (portal_mem split_store p) (side_of split_store p 0) h' p"
      and c: "c_tinyportals stats' = c_tinyportals \<lparr>c_tinyportals = 0\<rparr>
        + (\<Sum>p | attached split_store p 0. tiny_fragments clip_front never_tiny (split_planes ! 0)
             (portal_mem split_store p))"
    from o [of 0] have "nodes (portal_mem h' 0) SIDE_FRONT = Some 1
        \<and> nodes (portal_mem h' 0) SIDE_BACK = Some 3 \<and> winding (portal_mem h' 0) = Some 7"
      by (simp add: split_store_attached split_outcome_def split_store_fields side_of_def
          clip_front_def never_tiny_def kept_def Let_def)
    moreover from c have "c_tinyportals stats' = 0"
      by (simp add: split_store_attached tiny_fragments_def split_store_fields clip_front_def
          never_tiny_def tiny_count_def)
    ultimately show ?thesis using r e by (simp add: split_view_def)
  qed
qed

text \<open>
  C1 (amended).  \<open>SplitNodePortals\<close> on an interior node of a well-formed portal graph,
  each portal of the node having a winding and another endpoint that is none of the
  children: the call returns; every portal attached to the node is clipped by the node's
  plane with \<open>SPLIT_WINDING_EPSILON = 0.001\<close> and ends as \<open>split_outcome\<close> says (a tiny
  fragment is dropped like an absent one; with a front fragment only the portal is
  attached on its departing side to \<open>children[0]\<close>, with a back fragment only to
  \<open>children[1]\<close>, the other endpoint unchanged; with both the original keeps the front
  winding at \<open>children[0]\<close> and a copy carries the back winding at \<open>children[1]\<close>); the
  counter \<open>c_tinyportals\<close> grows by the number of tiny fragments, absent ones not
  counted; the list of the node is empty; the graph is well formed again.
\<close>

theorem SplitNodePortals_spec:
  assumes "valid h"
    and "planes_at planes (node_planenum (node_mem h node)) = Inr plane"
    and "children (node_mem h node) SIDE_FRONT = Some fn"
    and "children (node_mem h node) SIDE_BACK = Some bn"
    and "fn \<noteq> node" and "bn \<noteq> node"
    and "\<forall>p. attached h p node \<longrightarrow> splittable h node fn bn p"
  shows "\<exists>h' stats'.
      SplitNodePortals clip tiny planes h stats node = Some (Inr (h', stats'))
      \<and> (\<forall>p. attached h p node \<longrightarrow>
            split_outcome clip tiny plane fn bn (portal_brk h) (portal_mem h p) (side_of h p node) h' p)
      \<and> c_tinyportals stats' = c_tinyportals stats
            + (\<Sum>p | attached h p node. tiny_fragments clip tiny plane (portal_mem h p))
      \<and> portals (node_mem h' node) = None
      \<and> valid h'
      \<and> SPLIT_WINDING_EPSILON = 1 / 1000"
proof -
  from assms(7) have sp: "\<And>p. attached h p node \<Longrightarrow> splittable h node fn bn p" by simp
  show ?thesis
  proof (rule SplitNodePortals_props [OF assms(1-6) sp, of clip tiny stats])
    fix h' stats'
    assume "SplitNodePortals clip tiny planes h stats node = Some (Inr (h', stats'))"
      and "valid h'" and "portals (node_mem h' node) = None"
      and "\<And>p. attached h p node \<Longrightarrow>
           split_outcome clip tiny plane fn bn (portal_brk h) (portal_mem h p) (side_of h p node) h' p"
      and "c_tinyportals stats' = c_tinyportals stats
           + (\<Sum>p | attached h p node. tiny_fragments clip tiny plane (portal_mem h p))"
    then show ?thesis by (simp add: SPLIT_WINDING_EPSILON_def)
  qed
qed

theorem SplitNodePortals_spec_witness:
  "\<exists>h' stats'.
      SplitNodePortals clip_both never_tiny split_planes split_store \<lparr>c_tinyportals = 0\<rparr> 0 =
        Some (Inr (h', stats'))
      \<and> nodes (portal_mem h' 0) SIDE_FRONT = Some 1 \<and> nodes (portal_mem h' 0) SIDE_BACK = Some 3
      \<and> winding (portal_mem h' 0) = Some 14
      \<and> (\<exists>q. 1 \<le> q \<and> nodes (portal_mem h' q) SIDE_FRONT = Some 2
             \<and> nodes (portal_mem h' q) SIDE_BACK = Some 3 \<and> winding (portal_mem h' q) = Some 15)
      \<and> c_tinyportals stats' = 0
      \<and> portals (node_mem h' 0) = None"
proof -
  have n: "(1::nat) \<noteq> 0" "(2::nat) \<noteq> 0" by simp_all
  from SplitNodePortals_spec [OF valid_split_store split_store_plane split_store_fields(3,4) n
      split_store_splittable, of clip_both never_tiny "\<lparr>c_tinyportals = 0\<rparr>"]
  obtain h' stats' where r: "SplitNodePortals clip_both never_tiny split_planes split_store
        \<lparr>c_tinyportals = 0\<rparr> 0 = Some (Inr (h', stats'))"
    and o: "split_outcome clip_both never_tiny (split_planes ! 0) 1 2 (portal_brk split_store)
        (portal_mem split_store 0) (side_of split_store 0 0) h' 0"
    and c: "c_tinyportals stats' = c_tinyportals \<lparr>c_tinyportals = 0\<rparr>
        + (\<Sum>p | attached split_store p 0. tiny_fragments clip_both never_tiny (split_planes ! 0)
             (portal_mem split_store p))"
    and e: "portals (node_mem h' 0) = None"
    by (auto simp: split_store_attached)
  from o have "nodes (portal_mem h' 0) SIDE_FRONT = Some 1 \<and> nodes (portal_mem h' 0) SIDE_BACK = Some 3
      \<and> winding (portal_mem h' 0) = Some 14
      \<and> (\<exists>q. 1 \<le> q \<and> nodes (portal_mem h' q) SIDE_FRONT = Some 2
             \<and> nodes (portal_mem h' q) SIDE_BACK = Some 3 \<and> winding (portal_mem h' q) = Some 15)"
    by (auto simp: split_outcome_def split_store_fields side_of_def clip_both_def never_tiny_def
        kept_def Let_def)
  moreover from c have "c_tinyportals stats' = 0"
    by (simp add: split_store_attached tiny_fragments_def split_store_fields clip_both_def
        never_tiny_def tiny_count_def)
  ultimately show ?thesis using r e by blast
qed

text \<open>
  C2.  In a well-formed portal graph every endpoint \<open>nodes[s] = n\<close> of a portal \<open>p\<close> places
  \<open>p\<close> exactly once in the list of \<open>n\<close>, and the rest of that list is reached through
  \<open>p->next[s]\<close>.  Well-formedness is kept by \<open>AddPortalToNodes\<close> (for two different nodes
  and an allocated portal), by \<open>RemovePortalFromNode\<close> and by \<open>SplitNodePortals\<close>, whenever
  they return; the states inside \<open>SplitNodePortals\<close> are those between calls of the first
  two.
\<close>

theorem portal_lists_invariant:
  "(valid h \<and> nodes (portal_mem h p) s = Some n \<longrightarrow>
      (\<exists>xs ys. portal_list h n (xs @ p # ys) \<and> p \<notin> set xs \<and> p \<notin> set ys
         \<and> seg h n (next (portal_mem h p) s) ys None))
   \<and> (valid h \<and> fr \<noteq> bk \<and> p < portal_brk h \<and> AddPortalToNodes h p fr bk = Inr h1 \<longrightarrow> valid h1)
   \<and> (valid h \<and> RemovePortalFromNode h p l = Some (Inr h2) \<longrightarrow> valid h2)
   \<and> (valid h \<and> planes_at planes (node_planenum (node_mem h node)) = Inr plane
        \<and> children (node_mem h node) SIDE_FRONT = Some fn
        \<and> children (node_mem h node) SIDE_BACK = Some bn
        \<and> fn \<noteq> node \<and> bn \<noteq> node
        \<and> (\<forall>q. attached h q node \<longrightarrow> splittable h node fn bn q)
        \<and> SplitNodePortals clip tiny planes h stats node = Some (Inr (h3, stats3)) \<longrightarrow> valid h3)"
proof (intro conjI impI)
  assume "valid h \<and> nodes (portal_mem h p) s = Some n"
  then show "\<exists>xs ys. portal_list h n (xs @ p # ys) \<and> p \<notin> set xs \<and> p \<notin> set ys
         \<and> seg h n (next (portal_mem h p) s) ys None"
    using valid_once by blast
next
  assume "valid h \<and> fr \<noteq> bk \<and> p < portal_brk h \<and> AddPortalToNodes h p fr bk = Inr h1"
  then show "valid h1" using AddPortalToNodes_valid by blast
next
  assume "valid h \<and> RemovePortalFromNode h p l = Some (Inr h2)"
  then show "valid h2" using RemovePortalFromNode_valid by blast
next
  assume a: "valid h \<and> planes_at planes (node_planenum (node_mem h node)) = Inr plane
        \<and> children (node_mem h node) SIDE_FRONT = Some fn
        \<and> children (node_mem h node) SIDE_BACK = Some bn
        \<and> fn \<noteq> node \<and> bn \<noteq> node
        \<and> (\<forall>q. attached h q node \<longrightarrow> splittable h node fn bn q)
        \<and> SplitNodePortals clip tiny planes h stats node = Some (Inr (h3, stats3))"
  then have sp: "\<And>q. attached h q node \<Longrightarrow> splittable h node fn bn q" by simp
  from a have p: "valid h" "planes_at planes (node_planenum (node_mem h node)) = Inr plane"
    "children (node_mem h node) SIDE_FRONT = Some fn" "children (node_mem h node) SIDE_BACK = Some bn"
    "fn \<noteq> node" "bn \<noteq> node" by simp_all
  from a have r: "SplitNodePortals clip tiny planes h stats node = Some (Inr (h3, stats3))" by simp
  show "valid h3"
  proof (rule SplitNodePortals_props [OF p sp, of clip tiny stats])
    fix h' stats'
    assume "SplitNodePortals clip tiny planes h stats node = Some (Inr (h', stats'))" and "valid h'"
    with r show ?thesis by simp
  qed
qed

theorem portal_lists_invariant_witness:
  "valid split_store
   \<and> (\<exists>xs ys. portal_list split_store 0 (xs @ 0 # ys) \<and> 0 \<notin> set xs \<and> 0 \<notin> set ys
         \<and> seg split_store 0 (next (portal_mem split_store 0) SIDE_FRONT) ys None)
   \<and> (\<exists>h2. RemovePortalFromNode split_store 0 0 = Some (Inr h2) \<and> valid h2)
   \<and> (\<exists>h3 stats3. SplitNodePortals clip_both never_tiny split_planes split_store
          \<lparr>c_tinyportals = 0\<rparr> 0 = Some (Inr (h3, stats3)) \<and> valid h3)"
proof -
  have b: "0 < portal_brk split_empty" by (simp add: split_empty_def)
  have v: "valid split_store"
    using portal_lists_invariant [where h = split_empty and p = 0 and fr = 0 and bk = 3
        and ?h1.0 = split_store, THEN conjunct2, THEN conjunct1]
      valid_split_empty split_store_add b by simp
  have d: "distinct ([] @ (0::nat) # [])" by simp
  obtain h2 where h2: "RemovePortalFromNode split_store 0 0 = Some (Inr h2)"
    by (rule RemovePortalFromNode_lists [OF v split_store_list d])
  have sp: "\<And>p. attached split_store p 0 \<Longrightarrow> splittable split_store 0 1 2 p"
    using split_store_splittable by simp
  have n: "(1::nat) \<noteq> 0" "(2::nat) \<noteq> 0" by simp_all
  obtain h3 stats3 where h3: "SplitNodePortals clip_both never_tiny split_planes split_store
          \<lparr>c_tinyportals = 0\<rparr> 0 = Some (Inr (h3, stats3))"
    by (rule SplitNodePortals_props [OF v split_store_plane split_store_fields(3,4) n sp,
          of clip_both never_tiny "\<lparr>c_tinyportals = 0\<rparr>"])
  have 1: "\<exists>xs ys. portal_list split_store 0 (xs @ 0 # ys) \<and> 0 \<notin> set xs \<and> 0 \<notin> set ys
         \<and> seg split_store 0 (next (portal_mem split_store 0) SIDE_FRONT) ys None"
    using portal_lists_invariant [where h = split_store and p = 0 and s = SIDE_FRONT and n = 0,
        THEN conjunct1] v
    by (simp add: split_store_fields)
  have 2: "valid h2"
    using portal_lists_invariant [where h = split_store and p = 0 and l = 0 and ?h2.0 = h2,
        THEN conjunct2, THEN conjunct2, THEN conjunct1] v h2 by simp
  have 3: "valid h3"
    using portal_lists_invariant [where h = split_store and planes = split_planes and node = 0
          and plane = "split_planes ! 0" and fn = 1 and bn = 2 and clip = clip_both
          and tiny = never_tiny and stats = "\<lparr>c_tinyportals = 0\<rparr>" and ?h3.0 = h3
          and ?stats3.0 = stats3, THEN conjunct2, THEN conjunct2, THEN conjunct2]
      v h3 split_store_plane split_store_fields(3,4) split_store_splittable by simp
  from v 1 2 3 h2 h3 show ?thesis by blast
qed

subsection \<open>T-junction pass\<close>

lemma TestEdge_stats:
  "fst (TestEdge eps dv s e p1 p2 k ev es ed sf st) = fst (TestEdge eps dv s e p1 p2 k ev es ed sf st')"
proof (induction eps dv s e p1 p2 k ev es ed sf st arbitrary: st' rule: TestEdge.induct)
  case (1 eps dv s e p1 p2 k ev es ed sf st)
  show ?case
  proof (cases "p1 = p2")
    case True
    have "fst (TestEdge eps dv s e p1 p2 k ev es ed sf x) = sf" for x
      using True by (subst TestEdge.simps) simp
    then show ?thesis by simp
  next
    case ne: False
    show ?thesis
    proof (cases "TestEdge_scan eps dv s e p1 p2 ev es ed k")
      case None
      have "fst (TestEdge eps dv s e p1 p2 k ev es ed sf x) = sf @ [p1]" for x
        using ne None by (subst TestEdge.simps) simp
      then show ?thesis by simp
    next
      case (Some a)
      obtain k' d where a: "a = (k', d)" by (cases a)
      define j where "j = ev ! k'"
      define s1 where "s1 = st\<lparr>tjunctions := tjunctions st + 1\<rparr>"
      define s1' where "s1' = st'\<lparr>tjunctions := tjunctions st' + 1\<rparr>"
      obtain sf1 s2 where r1: "TestEdge eps dv s d p1 j (k' + 1) ev es ed sf s1 = (sf1, s2)"
        by (cases "TestEdge eps dv s d p1 j (k' + 1) ev es ed sf s1")
      obtain sf1' s2' where r1': "TestEdge eps dv s d p1 j (k' + 1) ev es ed sf s1' = (sf1', s2')"
        by (cases "TestEdge eps dv s d p1 j (k' + 1) ev es ed sf s1'")
      from "1.IH"(1) [OF ne Some a [symmetric] j_def s1_def, of s1'] r1 r1'
      have e1: "sf1' = sf1" by simp
      from "1.IH"(2) [OF ne Some a [symmetric] j_def s1_def refl r1 [symmetric], of s2']
      have e2: "fst (TestEdge eps dv d e j p2 (k' + 1) ev es ed sf1 s2) =
          fst (TestEdge eps dv d e j p2 (k' + 1) ev es ed sf1 s2')" by simp
      have l: "TestEdge eps dv s e p1 p2 k ev es ed sf st = TestEdge eps dv d e j p2 (k' + 1) ev es ed sf1 s2"
        using ne Some a r1 by (subst TestEdge.simps) (simp add: Let_def j_def s1_def)
      have r: "TestEdge eps dv s e p1 p2 k ev es ed sf st' = TestEdge eps dv d e j p2 (k' + 1) ev es ed sf1 s2'"
        using ne Some a r1' e1 by (subst TestEdge.simps) (simp add: Let_def j_def s1'_def)
      show ?thesis unfolding l r by (rule e2)
    qed
  qed
qed

lemma fold_stats:
  assumes "\<And>x a s s'. fst (step x (a, s)) = fst (step x (a, s'))"
  shows "fst (fold step xs (a, s)) = fst (fold step xs (a, s'))"
proof (induction xs arbitrary: a s s')
  case Nil
  show ?case by simp
next
  case (Cons x xs)
  obtain a1 s1 where 1: "step x (a, s) = (a1, s1)" by (cases "step x (a, s)")
  obtain a2 s2 where 2: "step x (a, s') = (a2, s2)" by (cases "step x (a, s')")
  from assms [of x a s s'] 1 2 have "a2 = a1" by simp
  with Cons.IH [of a1 s1 s2] 1 2 show ?case by simp
qed

lemma CreateSuperFace_stats:
  "fst (CreateSuperFace env f st) = fst (CreateSuperFace env f st')"
  unfolding CreateSuperFace_def
  by (rule fold_stats) (simp add: Let_def TestEdge_stats)

lemma FixFaceEdges_repair_stats:
  "fst (FixFaceEdges_repair env f sf st) = fst (FixFaceEdges_repair env f sf st')"
  by (simp add: FixFaceEdges_repair_def mwt_face_def Let_def split: option.splits)

lemma while_stats_sim:
  assumes "SplitFaceIntoFragments_while m out i st = Some r"
  shows "\<forall>st'. \<exists>t. SplitFaceIntoFragments_while m out i st' = Some (fst r, t)"
proof (rule SplitFaceIntoFragments_while.raw_induct [where P = "\<lambda>m out i st r.
    \<forall>st'. \<exists>t. SplitFaceIntoFragments_while m out i st' = Some (fst r, t)", OF _ assms], goal_cases)
  case (1 w m out i st r)
  show ?case
  proof (cases "m < length (out ! i)")
    case True
    let ?out = "(out @ [take m (out ! i)])[i := take 1 (out ! i) @ drop (m - 1) (out ! i)]"
    from 1(2) True have "w m ?out i (st\<lparr>faceoverflows := faceoverflows st + 1\<rparr>) = Some r"
      by (simp add: Let_def)
    from 1(1) [OF this]
    have "\<exists>t. SplitFaceIntoFragments_while m ?out i (st'\<lparr>faceoverflows := faceoverflows st' + 1\<rparr>) =
        Some (fst r, t)" for st' by blast
    then show ?thesis
      using True by (subst SplitFaceIntoFragments_while.simps) (simp add: Let_def)
  next
    case False
    with 1(2) have "r = (out, st)" by (simp add: Let_def)
    with False show ?thesis
      by (subst SplitFaceIntoFragments_while.simps) (simp add: Let_def)
  qed
qed

lemma SplitFaceIntoFragments_stats_sim:
  assumes "SplitFaceIntoFragments m out i st = Some r"
  shows "\<exists>t. SplitFaceIntoFragments m out i st' = Some (fst r, t)"
proof -
  from assms obtain r0 where r0: "SplitFaceIntoFragments_while m out i st = Some r0"
    and r: "r = (tl (fst r0) @ [hd (fst r0)], snd r0)"
    by (auto simp: SplitFaceIntoFragments_def bind_eq_Some_conv split: prod.splits)
  from while_stats_sim [OF r0] obtain t where
    "SplitFaceIntoFragments_while m out i st' = Some (fst r0, t)" by blast
  then show ?thesis by (simp add: SplitFaceIntoFragments_def r)
qed

lemma FixFaceEdges_split_stats_sim:
  assumes "FixFaceEdges_split m faces i st = Some r"
  shows "\<forall>st'. \<exists>r'. FixFaceEdges_split m faces i st' = Some r' \<and> map_sum id fst r' = map_sum id fst r"
proof (rule FixFaceEdges_split.raw_induct [where P = "\<lambda>m faces i st r.
    \<forall>st'. \<exists>r'. FixFaceEdges_split m faces i st' = Some r' \<and> map_sum id fst r' = map_sum id fst r",
    OF _ assms], goal_cases)
  case (1 w m faces i st r)
  show ?case
  proof (cases "i \<ge> length faces \<or> \<not> length (faces ! i) \<ge> 3")
    case True
    with 1(2) show ?thesis
      by (subst FixFaceEdges_split.simps) (auto split: if_splits)
  next
    case False
    with 1(2) obtain faces1 st1 where
      s: "SplitFaceIntoFragments m faces i st = Some (faces1, st1)"
      and k: "(let i' = (if i = 0 then length faces1 - 1 else i - 1) in
           if \<not> length (faces1 ! i') \<ge> 3 then Some (Inl (AssertFailed ''face.size() >= 3''))
           else w m faces1 (i' + 1) st1) = Some r"
      by (auto simp: bind_eq_Some_conv)
    define i' where "i' = (if i = 0 then length faces1 - 1 else i - 1)"
    show ?thesis
    proof (cases "length (faces1 ! i') \<ge> 3")
      case True
      with k have "w m faces1 (i' + 1) st1 = Some r" by (simp add: i'_def Let_def)
      from 1(1) [OF this] have n: "\<exists>r'. FixFaceEdges_split m faces1 (i' + 1) t = Some r'
          \<and> map_sum id fst r' = map_sum id fst r" for t by blast
      show ?thesis
      proof
        fix st'
        from SplitFaceIntoFragments_stats_sim [OF s, of st'] obtain t where
          s': "SplitFaceIntoFragments m faces i st' = Some (faces1, t)" by auto
        from n [of t] False True s'
        show "\<exists>r'. FixFaceEdges_split m faces i st' = Some r' \<and> map_sum id fst r' = map_sum id fst r"
          by (subst FixFaceEdges_split.simps) (simp add: i'_def Let_def)
      qed
    next
      case f: False
      with k have r: "r = Inl (AssertFailed ''face.size() >= 3'')" by (simp add: i'_def Let_def)
      show ?thesis
      proof
        fix st'
        from SplitFaceIntoFragments_stats_sim [OF s, of st'] obtain t where
          s': "SplitFaceIntoFragments m faces i st' = Some (faces1, t)" by auto
        from r False f s'
        show "\<exists>r'. FixFaceEdges_split m faces i st' = Some r' \<and> map_sum id fst r' = map_sum id fst r"
          by (subst FixFaceEdges_split.simps) (simp add: i'_def Let_def)
      qed
    qed
  qed
qed

lemma sim_eq:
  assumes "\<And>st st' r. g st = Some r \<Longrightarrow> \<exists>r'. g st' = Some r' \<and> map_sum id fst r' = map_sum id fst r"
  shows "face_result (g st) = face_result (g st')"
proof (cases "g st")
  case None
  show ?thesis
  proof (cases "g st'")
    case n: None
    with None show ?thesis by (simp add: face_result_def)
  next
    case (Some r')
    from assms [OF this, of st] None show ?thesis by simp
  qed
next
  case (Some r)
  from assms [OF this, of st'] Some show ?thesis by (auto simp: face_result_def)
qed

lemma FixFaceEdges_split_stats:
  "face_result (FixFaceEdges_split m faces i st) = face_result (FixFaceEdges_split m faces i st')"
  by (rule sim_eq) (use FixFaceEdges_split_stats_sim in blast)

lemma FixFaceEdges_store_stats:
  "face_result (FixFaceEdges_store m f faces st) = face_result (FixFaceEdges_store m f faces st')"
proof (cases "faces = [] \<or> m = 0")
  case True
  then show ?thesis by (auto simp: FixFaceEdges_store_def face_result_def Let_def)
next
  case False
  have "face_result (FixFaceEdges_store m f faces x) =
      map_option (\<lambda>r. case r of Inl e \<Rightarrow> Inl e
        | Inr fs \<Rightarrow> if list_all (\<lambda>frag. length frag \<ge> 3) (fragments f @ fs)
            then Inr (f\<lparr>fragments := fragments f @ fs\<rparr>)
            else Inl (AssertFailed ''frag.output_vertices.size() >= 3''))
        (face_result (FixFaceEdges_split m faces 0 x))" for x
    using False
    by (cases "FixFaceEdges_split m faces 0 x")
      (auto simp: FixFaceEdges_store_def face_result_def Let_def split: sum.splits)
  then show ?thesis by (simp add: FixFaceEdges_split_stats [of m faces 0 st st'])
qed

lemma FixFaceEdges_stats:
  "face_result (FixFaceEdges env f st) = face_result (FixFaceEdges env f st')"
proof -
  obtain sf s1 where 1: "CreateSuperFace env f st = (sf, s1)" by (cases "CreateSuperFace env f st")
  obtain sf' s1' where 2: "CreateSuperFace env f st' = (sf', s1')" by (cases "CreateSuperFace env f st'")
  from CreateSuperFace_stats [of env f st st'] 1 2 have e: "sf' = sf" by simp
  obtain fs s2 where 3: "FixFaceEdges_repair env f sf s1 = (fs, s2)" by (cases "FixFaceEdges_repair env f sf s1")
  obtain fs' s2' where 4: "FixFaceEdges_repair env f sf s1' = (fs', s2')" by (cases "FixFaceEdges_repair env f sf s1'")
  from FixFaceEdges_repair_stats [of env f sf s1 s1'] 3 4 have e': "fs' = fs" by simp
  show ?thesis
    using FixFaceEdges_store_stats [of "env_maxedges env" f fs s2 s2']
    by (simp add: FixFaceEdges_def 1 2 e 3 4 e') (simp add: face_result_def)
qed

lemma face_result_Inr:
  "face_result r = Some (Inr x) \<longleftrightarrow> (\<exists>t. r = Some (Inr (x, t)))"
proof (cases r)
  case None
  then show ?thesis by (simp add: face_result_def)
next
  case (Some y)
  then show ?thesis by (cases y) (auto simp: face_result_def)
qed

lemma FixFaceEdges_Inr_stats:
  assumes "FixFaceEdges env f st = Some (Inr (f', t))"
  shows "\<exists>t'. FixFaceEdges env f st' = Some (Inr (f', t'))"
proof -
  from assms have "face_result (FixFaceEdges env f st) = Some (Inr f')"
    by (simp add: face_result_def)
  then have "face_result (FixFaceEdges env f st') = Some (Inr f')"
    by (simp add: FixFaceEdges_stats [of env f st' st])
  then show ?thesis by (simp add: face_result_Inr)
qed

lemma TJunc_faces_results:
  assumes "TJunc_faces env fs st = Some (Inr (rs, t))"
  shows "list_all2 (\<lambda>f r. face_result (FixFaceEdges env f st') = Some (Inr r)) fs rs"
  using assms
proof (induction fs arbitrary: st rs t)
  case Nil
  then show ?case by simp
next
  case (Cons f fs)
  from Cons.prems obtain x where x: "FixFaceEdges env f st = Some x"
    by (auto simp: bind_eq_Some_conv)
  with Cons.prems obtain f' st1 where 1: "FixFaceEdges env f st = Some (Inr (f', st1))"
    by (cases x) auto
  with Cons.prems obtain y where y: "TJunc_faces env fs st1 = Some y"
    by (auto simp: bind_eq_Some_conv)
  with Cons.prems 1 obtain fs' where 2: "TJunc_faces env fs st1 = Some (Inr (fs', t))"
    and 3: "rs = f' # fs'"
    by (cases y) auto
  from FixFaceEdges_Inr_stats [OF 1, of st']
  have "face_result (FixFaceEdges env f st') = Some (Inr f')" by (auto simp: face_result_def)
  with Cons.IH [OF 2] 3 show ?case by simp
qed

lemma TJunc_faces_exists:
  assumes "list_all2 (\<lambda>f r. face_result (FixFaceEdges env f s0) = Some (Inr r)) fs rs"
  shows "\<exists>t. TJunc_faces env fs st = Some (Inr (rs, t))"
  using assms
proof (induction fs rs arbitrary: st rule: list_all2_induct)
  case Nil
  show ?case by simp
next
  case (Cons f fs r rs)
  from Cons.hyps(1) obtain t0 where "FixFaceEdges env f s0 = Some (Inr (r, t0))"
    by (auto simp: face_result_Inr)
  from FixFaceEdges_Inr_stats [OF this, of st] obtain st1 where
    1: "FixFaceEdges env f st = Some (Inr (r, st1))" by blast
  from Cons.IH [of st1] obtain t where "TJunc_faces env fs st1 = Some (Inr (rs, t))" by blast
  with 1 show ?case by simp
qed

lemma results_map:
  assumes "list_all2 (\<lambda>f r. face_result (FixFaceEdges env f s0) = Some (Inr r)) fs rs"
  shows "rs = map (face_alone env s0) fs"
    and "\<And>f. f \<in> set fs \<Longrightarrow> face_result (FixFaceEdges env f s0) = Some (Inr (face_alone env s0 f))"
  using assms
  by (induction fs rs rule: list_all2_induct) (auto simp: face_alone_def face_result_Inr)

lemma TJunc_faces_stats_sim:
  assumes "TJunc_faces env fs st = Some r"
  shows "\<exists>r'. TJunc_faces env fs st' = Some r' \<and> map_sum id fst r' = map_sum id fst r"
  using assms
proof (induction fs arbitrary: st st' r)
  case Nil
  then show ?case by auto
next
  case (Cons f fs)
  from Cons.prems obtain x where x: "FixFaceEdges env f st = Some x"
    by (auto simp: bind_eq_Some_conv)
  have fr: "face_result (FixFaceEdges env f st') = face_result (Some x)"
    using FixFaceEdges_stats [of env f st' st] x by simp
  show ?case
  proof (cases x)
    case (Inl e)
    with fr obtain z where z: "FixFaceEdges env f st' = Some z" "map_sum id fst z = Inl e"
      by (cases "FixFaceEdges env f st'") (auto simp: face_result_def)
    then have "FixFaceEdges env f st' = Some (Inl e)" by (cases z) auto
    with Cons.prems x Inl show ?thesis by auto
  next
    case (Inr p)
    obtain f' st1 where p: "p = (f', st1)" by (cases p)
    from FixFaceEdges_Inr_stats [OF x [unfolded Inr p], of st'] obtain st1' where
      1: "FixFaceEdges env f st' = Some (Inr (f', st1'))" by blast
    from Cons.prems x Inr p obtain y where y: "TJunc_faces env fs st1 = Some y"
      by (auto simp: bind_eq_Some_conv)
    from Cons.IH [OF y, of st1'] obtain y' where
      y': "TJunc_faces env fs st1' = Some y'" "map_sum id fst y' = map_sum id fst y" by blast
    from Cons.prems x Inr p y have r: "r = (case y of Inl e \<Rightarrow> Inl e | Inr (fs', s) \<Rightarrow> Inr (f' # fs', s))"
      by (auto split: sum.splits)
    from y'(2) show ?thesis
      unfolding r using 1 y'(1)
      by (cases y; cases y') (auto split: sum.splits)
  qed
qed

lemma TestEdge_no_candidates:
  "TestEdge eps dv s e p1 p2 k [] es ed sf st =
     (if p1 = p2 then (sf, st\<lparr>degenerate := degenerate st + 1\<rparr>) else (sf @ [p1], st))"
  by (subst TestEdge.simps) (simp add: TestEdge_scan.simps)

lemma upt3: "[0..<3] = [0, 1, 2]"
  by (simp add: upt_rec)

lemma FixFaceEdges_deg:
  "FixFaceEdges tjunc_env_rotate tjunc_face_deg st =
     Some (Inr (tjunc_face_deg, st\<lparr>degenerate := degenerate st + 1, facecollapse := facecollapse st + 1\<rparr>))"
  by (simp add: FixFaceEdges_def CreateSuperFace_def tjunc_env_rotate_def tjunc_env_none_def
      tjunc_face_deg_def upt3 TestEdge_no_candidates Let_def)

lemma FixFaceEdges_tri:
  "FixFaceEdges tjunc_env_rotate tjunc_face3 st =
     Some (Inr (tjunc_face3\<lparr>fragments := [[0, 1, 2]]\<rparr>, st))"
  by (simp add: FixFaceEdges_def CreateSuperFace_def tjunc_env_rotate_def tjunc_env_none_def
      tjunc_face3_def upt3 TestEdge_no_candidates Let_def)

text \<open>
  C7.  The face left by \<open>FixFaceEdges\<close>, or its failure, does not depend on the counters
  it is started with; neither does the outcome of the whole loop.  When the loop over
  the faces in one order returns, every face in the result is the one \<open>FixFaceEdges\<close>
  leaves for it from any counters, and the loop over any rearrangement of the faces,
  started with any counters, returns too and pairs every face with the same result.
\<close>

theorem FixFaceEdges_noninterference:
  "face_result (FixFaceEdges env f st) = face_result (FixFaceEdges env f st')
   \<and> face_result (TJunc_faces env fs st) = face_result (TJunc_faces env fs st')
   \<and> (TJunc_faces env fs st = Some (Inr (rs, t)) \<and> mset fs' = mset fs \<longrightarrow>
        list_all2 (\<lambda>f r. face_result (FixFaceEdges env f st') = Some (Inr r)) fs rs
        \<and> (\<exists>rs' t'. TJunc_faces env fs' st' = Some (Inr (rs', t'))
               \<and> mset (zip fs' rs') = mset (zip fs rs)))"
proof (intro conjI impI)
  show "face_result (FixFaceEdges env f st) = face_result (FixFaceEdges env f st')"
    by (rule FixFaceEdges_stats)
  show "face_result (TJunc_faces env fs st) = face_result (TJunc_faces env fs st')"
    by (rule sim_eq) (use TJunc_faces_stats_sim in blast)
next
  assume a: "TJunc_faces env fs st = Some (Inr (rs, t)) \<and> mset fs' = mset fs"
  then have run: "TJunc_faces env fs st = Some (Inr (rs, t))" and m: "mset fs' = mset fs" by simp_all
  show l: "list_all2 (\<lambda>f r. face_result (FixFaceEdges env f st') = Some (Inr r)) fs rs"
    by (rule TJunc_faces_results [OF run])
  note r = results_map [OF l]
  from m have "set fs' = set fs" by (rule mset_eq_setD)
  with r(2) have "list_all2 (\<lambda>f r. face_result (FixFaceEdges env f st') = Some (Inr r)) fs'
      (map (face_alone env st') fs')"
    by (simp add: list_all2_map2 list_all2_same)
  from TJunc_faces_exists [OF this, of st'] obtain t' where
    run': "TJunc_faces env fs' st' = Some (Inr (map (face_alone env st') fs', t'))" by blast
  have z: "zip xs (map g xs) = map (\<lambda>x. (x, g x)) xs" for xs :: "tjunc_face_t list" and g
    by (induction xs) simp_all
  have "mset (zip fs' (map (face_alone env st') fs')) = mset (zip fs rs)"
    unfolding r(1) z using m by (metis mset_map)
  with run' show "\<exists>rs' t'. TJunc_faces env fs' st' = Some (Inr (rs', t'))
               \<and> mset (zip fs' rs') = mset (zip fs rs)" by blast
qed

theorem FixFaceEdges_noninterference_witness:
  "TJunc_faces tjunc_env_rotate [tjunc_face_deg, tjunc_face3] tjunc_stats_zero =
     Some (Inr ([tjunc_face_deg, tjunc_face3\<lparr>fragments := [[0, 1, 2]]\<rparr>],
                tjunc_stats_zero\<lparr>degenerate := 1, facecollapse := 1\<rparr>))
   \<and> mset [tjunc_face3, tjunc_face_deg] = mset [tjunc_face_deg, tjunc_face3]
   \<and> (\<exists>rs' t'. TJunc_faces tjunc_env_rotate [tjunc_face3, tjunc_face_deg]
            (tjunc_stats_zero\<lparr>mwt := 5\<rparr>) = Some (Inr (rs', t'))
        \<and> mset (zip [tjunc_face3, tjunc_face_deg] rs') =
            mset (zip [tjunc_face_deg, tjunc_face3]
                   [tjunc_face_deg, tjunc_face3\<lparr>fragments := [[0, 1, 2]]\<rparr>]))"
proof -
  have 1: "TJunc_faces tjunc_env_rotate [tjunc_face_deg, tjunc_face3] tjunc_stats_zero =
     Some (Inr ([tjunc_face_deg, tjunc_face3\<lparr>fragments := [[0, 1, 2]]\<rparr>],
                tjunc_stats_zero\<lparr>degenerate := 1, facecollapse := 1\<rparr>))"
    by (simp add: FixFaceEdges_deg FixFaceEdges_tri tjunc_stats_zero_def)
  have 2: "mset [tjunc_face3, tjunc_face_deg] = mset [tjunc_face_deg, tjunc_face3]"
    by (simp add: add.commute)
  from FixFaceEdges_noninterference [where env = tjunc_env_rotate
      and fs = "[tjunc_face_deg, tjunc_face3]"
      and st = tjunc_stats_zero and st' = "tjunc_stats_zero\<lparr>mwt := 5\<rparr>"
      and fs' = "[tjunc_face3, tjunc_face_deg]"
      and rs = "[tjunc_face_deg, tjunc_face3\<lparr>fragments := [[0, 1, 2]]\<rparr>]"
      and t = "tjunc_stats_zero\<lparr>degenerate := 1, facecollapse := 1\<rparr>",
      THEN conjunct2, THEN conjunct2] 1 2
  show ?thesis by blast
qed

end
